theory Spec2Isabelle
  imports Main "HOL-Library.Monad_Syntax"
begin

section \<open>Data model\<close>

text \<open>
  The enum \<^verbatim>\<open>PieceType\<close>, the table \<^verbatim>\<open>PIECE_VALUES\<close> and the structs
  \<^verbatim>\<open>Move\<close>, \<^verbatim>\<open>ChessState\<close> and \<^verbatim>\<open>UndoInfo\<close> of the threaded version of the
  program. Squares are C \<^verbatim>\<open>int\<close>s; every arithmetic expression of the modelled functions
  is evaluated on board coordinates only after the squares were used as board indices, so
  the unbounded \<^typ>\<open>int\<close> never differs from the machine integer on a run that stays
  inside the board.

  The board is the two-dimensional array \<^verbatim>\<open>board[8][8]\<close>: a function from the row to
  the column to the piece, read and written only through \<open>boardAt\<close> and \<open>boardSet\<close>,
  which refuse an index outside the 8x8 board. A result \<open>None\<close> of a modelled function
  stands for a run with no defined result: an out-of-range board index (undefined
  behaviour in C) or a loop that never ends.

  The record \<open>ChessState\<close> leaves out \<^verbatim>\<open>engineMove\<close> and \<^verbatim>\<open>pieceTextures\<close>,
  which no modelled function reads or writes. The two-element arrays
  \<^verbatim>\<open>hasCastledWhite\<close> and \<^verbatim>\<open>hasCastledBlack\<close> are pairs: index 0 is the first
  component (king side), index 1 the second (queen side).
\<close>

datatype PieceType =
    EMPTY
  | WHITE_PAWN | WHITE_KNIGHT | WHITE_BISHOP | WHITE_ROOK | WHITE_QUEEN | WHITE_KING
  | BLACK_PAWN | BLACK_KNIGHT | BLACK_BISHOP | BLACK_ROOK | BLACK_QUEEN | BLACK_KING

fun PIECE_VALUES :: "PieceType \<Rightarrow> int" where
  "PIECE_VALUES EMPTY = 0"
| "PIECE_VALUES WHITE_PAWN = 1"
| "PIECE_VALUES WHITE_KNIGHT = 3"
| "PIECE_VALUES WHITE_BISHOP = 4"
| "PIECE_VALUES WHITE_ROOK = 5"
| "PIECE_VALUES WHITE_QUEEN = 9"
| "PIECE_VALUES WHITE_KING = 0"
| "PIECE_VALUES BLACK_PAWN = 1"
| "PIECE_VALUES BLACK_KNIGHT = 3"
| "PIECE_VALUES BLACK_BISHOP = 4"
| "PIECE_VALUES BLACK_ROOK = 5"
| "PIECE_VALUES BLACK_QUEEN = 9"
| "PIECE_VALUES BLACK_KING = 0"

record Move =
  fromRow :: int
  fromCol :: int
  toRow :: int
  toCol :: int
  captured :: PieceType
  isPromotion :: bool
  isEnPassant :: bool
  isCastling :: bool

record ChessState =
  board :: "int \<Rightarrow> int \<Rightarrow> PieceType"
  whiteToMove :: bool
  selectedRow :: int
  selectedCol :: int
  engineWhite :: bool
  enginePending :: bool
  hasCastledWhite :: "bool \<times> bool"
  hasCastledBlack :: "bool \<times> bool"
  enPassantCol :: int

record UndoInfo =
  undo_hasCastledWhite :: "bool \<times> bool"
  undo_hasCastledBlack :: "bool \<times> bool"
  undo_enPassantCol :: int
  capturedPiece :: PieceType
  capturedRow :: int
  capturedCol :: int

section \<open>Helpers\<close>

definition inBounds :: "int \<Rightarrow> int \<Rightarrow> bool" where
  "inBounds r c = (r \<ge> 0 \<and> r < 8 \<and> c \<ge> 0 \<and> c < 8)"

fun isWhite :: "PieceType \<Rightarrow> bool" where
  "isWhite WHITE_PAWN = True"
| "isWhite WHITE_KNIGHT = True"
| "isWhite WHITE_BISHOP = True"
| "isWhite WHITE_ROOK = True"
| "isWhite WHITE_QUEEN = True"
| "isWhite WHITE_KING = True"
| "isWhite _ = False"

fun isBlack :: "PieceType \<Rightarrow> bool" where
  "isBlack BLACK_PAWN = True"
| "isBlack BLACK_KNIGHT = True"
| "isBlack BLACK_BISHOP = True"
| "isBlack BLACK_ROOK = True"
| "isBlack BLACK_QUEEN = True"
| "isBlack BLACK_KING = True"
| "isBlack _ = False"

definition sameColor :: "PieceType \<Rightarrow> PieceType \<Rightarrow> bool" where
  "sameColor a b = ((isWhite a \<and> isWhite b) \<or> (isBlack a \<and> isBlack b))"

text \<open>The read \<^verbatim>\<open>chess->board[r][c]\<close> and the write \<^verbatim>\<open>chess->board[r][c] = p\<close>.\<close>

definition boardAt :: "ChessState \<Rightarrow> int \<Rightarrow> int \<Rightarrow> PieceType option" where
  "boardAt chess r c = (if inBounds r c then Some (board chess r c) else None)"

definition boardSet :: "ChessState \<Rightarrow> int \<Rightarrow> int \<Rightarrow> PieceType \<Rightarrow> ChessState option" where
  "boardSet chess r c p =
     (if inBounds r c
      then Some (chess\<lparr>board := (board chess)(r := (board chess r)(c := p))\<rparr>)
      else None)"

text \<open>
  The squares of the board in the order of the nested loops
  \<^verbatim>\<open>for (r = 0; r < 8; r++) for (c = 0; c < 8; c++)\<close>.
\<close>

definition squares :: "(int \<times> int) list" where
  "squares = concat (map (\<lambda>r. map (\<lambda>c. (r, c)) [0..7]) [0..7])"

definition initChessState :: ChessState where
  "initChessState =
     (let b0 = (\<lambda>r c. EMPTY);
          b1 = b0(0 := (b0 0)(0 := WHITE_ROOK, 1 := WHITE_KNIGHT, 2 := WHITE_BISHOP,
                               3 := WHITE_QUEEN, 4 := WHITE_KING, 5 := WHITE_BISHOP,
                               6 := WHITE_KNIGHT, 7 := WHITE_ROOK));
          b2 = b1(7 := (b1 7)(0 := BLACK_ROOK, 1 := BLACK_KNIGHT, 2 := BLACK_BISHOP,
                               3 := BLACK_QUEEN, 4 := BLACK_KING, 5 := BLACK_BISHOP,
                               6 := BLACK_KNIGHT, 7 := BLACK_ROOK));
          b3 = fold (\<lambda>i b. b(1 := (b 1)(i := WHITE_PAWN), 6 := (b 6)(i := BLACK_PAWN)))
                    [0..7] b2
      in \<lparr> board = b3, whiteToMove = True, selectedRow = -1, selectedCol = -1,
           engineWhite = False, enginePending = False,
           hasCastledWhite = (False, False), hasCastledBlack = (False, False),
           enPassantCol = -1 \<rparr>)"

section \<open>Attack and legality oracle\<close>

text \<open>
  The loop of \<^verbatim>\<open>pathClear\<close>: it walks from \<open>(r, c)\<close> in steps of \<open>(dr, dc)\<close> until it
  stands on \<open>(tr, tc)\<close>, and reads the board at every square it visits. It need not end
  (no step, or a step that misses the target), so it is a partial function.
\<close>

partial_function (option) pathClear_loop ::
  "ChessState \<Rightarrow> int \<Rightarrow> int \<Rightarrow> int \<Rightarrow> int \<Rightarrow> int \<Rightarrow> int \<Rightarrow> bool option" where
  [code]: "pathClear_loop chess dr dc tr tc r c =
     (if r \<noteq> tr \<or> c \<noteq> tc
      then do { p \<leftarrow> boardAt chess r c;
                if p \<noteq> EMPTY then Some False
                else pathClear_loop chess dr dc tr tc (r + dr) (c + dc) }
      else Some True)"

definition pathClear :: "ChessState \<Rightarrow> int \<Rightarrow> int \<Rightarrow> int \<Rightarrow> int \<Rightarrow> bool option" where
  "pathClear chess fr fc tr tc =
     (let dr = (if tr > fr then 1 else 0) - (if tr < fr then 1 else 0);
          dc = (if tc > fc then 1 else 0) - (if tc < fc then 1 else 0)
      in pathClear_loop chess dr dc tr tc (fr + dr) (fc + dc))"

definition knightMove :: "ChessState \<Rightarrow> int \<Rightarrow> int \<Rightarrow> int \<Rightarrow> int \<Rightarrow> bool option" where
  "knightMove chess fr fc tr tc =
     (let dr = \<bar>tr - fr\<bar>; dc = \<bar>tc - fc\<bar>
      in Some ((dr = 2 \<and> dc = 1) \<or> (dr = 1 \<and> dc = 2)))"

definition rookMove :: "ChessState \<Rightarrow> int \<Rightarrow> int \<Rightarrow> int \<Rightarrow> int \<Rightarrow> bool option" where
  "rookMove chess fr fc tr tc =
     (if fr \<noteq> tr \<and> fc \<noteq> tc then Some False else pathClear chess fr fc tr tc)"

definition bishopMove :: "ChessState \<Rightarrow> int \<Rightarrow> int \<Rightarrow> int \<Rightarrow> int \<Rightarrow> bool option" where
  "bishopMove chess fr fc tr tc =
     (if \<bar>fr - tr\<bar> \<noteq> \<bar>fc - tc\<bar> then Some False else pathClear chess fr fc tr tc)"

definition queenMove :: "ChessState \<Rightarrow> int \<Rightarrow> int \<Rightarrow> int \<Rightarrow> int \<Rightarrow> bool option" where
  "queenMove chess fr fc tr tc =
     do { a \<leftarrow> rookMove chess fr fc tr tc;
          if a then Some True else bishopMove chess fr fc tr tc }"

text \<open>
  \<^verbatim>\<open>pawnMove\<close>: the three tests in the order of the source; inside each the board is
  read only when the tests to its left hold, as \<^verbatim>\<open>&&\<close> has it.
\<close>

definition pawnMove :: "ChessState \<Rightarrow> int \<Rightarrow> int \<Rightarrow> int \<Rightarrow> int \<Rightarrow> bool option" where
  "pawnMove chess fr fc tr tc =
     do { p \<leftarrow> boardAt chess fr fc;
          let dir = (if isWhite p then 1 else -1);
          let startRow = (if isWhite p then 1 else 6);
          single \<leftarrow> (if fc = tc \<and> tr = fr + dir
                     then do { t \<leftarrow> boardAt chess tr tc; Some (t = EMPTY) }
                     else Some False);
          if single then Some True
          else do {
            double \<leftarrow> (if fc = tc \<and> fr = startRow \<and> tr = fr + 2 * dir
                       then do { m \<leftarrow> boardAt chess (fr + dir) fc;
                                 if m = EMPTY
                                 then do { t \<leftarrow> boardAt chess tr tc; Some (t = EMPTY) }
                                 else Some False }
                       else Some False);
            if double then Some True
            else do {
              capture \<leftarrow> (if \<bar>tc - fc\<bar> = 1 \<and> tr = fr + dir
                          then do { t \<leftarrow> boardAt chess tr tc; Some (t \<noteq> EMPTY) }
                          else Some False);
              if capture then Some True else Some False } } }"

definition canPieceAttackSquare ::
  "ChessState \<Rightarrow> int \<Rightarrow> int \<Rightarrow> int \<Rightarrow> int \<Rightarrow> bool option" where
  "canPieceAttackSquare chess fr fc tr tc =
     (if \<not> inBounds tr tc then Some False
      else do {
        p \<leftarrow> boardAt chess fr fc;
        case p of
          EMPTY \<Rightarrow> Some False
        | WHITE_PAWN \<Rightarrow> pawnMove chess fr fc tr tc
        | BLACK_PAWN \<Rightarrow> pawnMove chess fr fc tr tc
        | WHITE_KNIGHT \<Rightarrow> knightMove chess fr fc tr tc
        | BLACK_KNIGHT \<Rightarrow> knightMove chess fr fc tr tc
        | WHITE_BISHOP \<Rightarrow> bishopMove chess fr fc tr tc
        | BLACK_BISHOP \<Rightarrow> bishopMove chess fr fc tr tc
        | WHITE_ROOK \<Rightarrow> rookMove chess fr fc tr tc
        | BLACK_ROOK \<Rightarrow> rookMove chess fr fc tr tc
        | WHITE_QUEEN \<Rightarrow> queenMove chess fr fc tr tc
        | BLACK_QUEEN \<Rightarrow> queenMove chess fr fc tr tc
        | WHITE_KING \<Rightarrow> Some (\<bar>fr - tr\<bar> \<le> 1 \<and> \<bar>fc - tc\<bar> \<le> 1)
        | BLACK_KING \<Rightarrow> Some (\<bar>fr - tr\<bar> \<le> 1 \<and> \<bar>fc - tc\<bar> \<le> 1) })"

fun isSquareAttacked_loop ::
  "ChessState \<Rightarrow> int \<Rightarrow> int \<Rightarrow> bool \<Rightarrow> (int \<times> int) list \<Rightarrow> bool option" where
  "isSquareAttacked_loop chess r c byWhite [] = Some False"
| "isSquareAttacked_loop chess r c byWhite ((fr, fc) # rest) =
     do { p \<leftarrow> boardAt chess fr fc;
          if p = EMPTY then isSquareAttacked_loop chess r c byWhite rest
          else if byWhite \<and> \<not> isWhite p then isSquareAttacked_loop chess r c byWhite rest
          else if \<not> byWhite \<and> \<not> isBlack p then isSquareAttacked_loop chess r c byWhite rest
          else do { a \<leftarrow> canPieceAttackSquare chess fr fc r c;
                    if a then Some True
                    else isSquareAttacked_loop chess r c byWhite rest } }"

definition isSquareAttacked :: "ChessState \<Rightarrow> int \<Rightarrow> int \<Rightarrow> bool \<Rightarrow> bool option" where
  "isSquareAttacked chess r c byWhite = isSquareAttacked_loop chess r c byWhite squares"

fun isKingInCheck_loop :: "ChessState \<Rightarrow> bool \<Rightarrow> (int \<times> int) list \<Rightarrow> bool option" where
  "isKingInCheck_loop chess whiteKing [] = Some False"
| "isKingInCheck_loop chess whiteKing ((r, c) # rest) =
     do { p \<leftarrow> boardAt chess r c;
          if (whiteKing \<and> p = WHITE_KING) \<or> (\<not> whiteKing \<and> p = BLACK_KING)
          then isSquareAttacked chess r c (\<not> whiteKing)
          else isKingInCheck_loop chess whiteKing rest }"

definition isKingInCheck :: "ChessState \<Rightarrow> bool \<Rightarrow> bool option" where
  "isKingInCheck chess whiteKing = isKingInCheck_loop chess whiteKing squares"

text \<open>
  The two loops of \<^verbatim>\<open>canCastle\<close> run a column \<open>c\<close> in steps of \<open>step\<close> until it
  meets a bound; like the loop of \<^verbatim>\<open>pathClear\<close> they are partial functions.
\<close>

partial_function (option) canCastle_between ::
  "ChessState \<Rightarrow> int \<Rightarrow> int \<Rightarrow> int \<Rightarrow> int \<Rightarrow> bool option" where
  [code]: "canCastle_between chess fr step rookCol c =
     (if c \<noteq> rookCol
      then do { p \<leftarrow> boardAt chess fr c;
                if p \<noteq> EMPTY then Some False
                else canCastle_between chess fr step rookCol (c + step) }
      else Some True)"

partial_function (option) canCastle_transit ::
  "ChessState \<Rightarrow> int \<Rightarrow> int \<Rightarrow> int \<Rightarrow> bool \<Rightarrow> int \<Rightarrow> bool option" where
  [code]: "canCastle_transit chess fr step stop white c =
     (if c \<noteq> stop
      then do { a \<leftarrow> isSquareAttacked chess fr c (\<not> white);
                if a then Some False
                else canCastle_transit chess fr step stop white (c + step) }
      else Some True)"

definition canCastle :: "ChessState \<Rightarrow> int \<Rightarrow> int \<Rightarrow> int \<Rightarrow> int \<Rightarrow> bool option" where
  "canCastle chess fr fc tr tc =
     do { king \<leftarrow> boardAt chess fr fc;
          let white = isWhite king;
          if white \<and> fr \<noteq> 0 then Some False
          else if \<not> white \<and> fr \<noteq> 7 then Some False
          else if fc \<noteq> 4 then Some False
          else do {
            let rookCol = (if tc = 6 then 7 else 0);
            let step = (if tc > fc then 1 else -1);
            if white \<and> (if tc = 6 then fst (hasCastledWhite chess)
                         else snd (hasCastledWhite chess)) then Some False
            else if \<not> white \<and> (if tc = 6 then fst (hasCastledBlack chess)
                                else snd (hasCastledBlack chess)) then Some False
            else do {
              rook \<leftarrow> boardAt chess fr rookCol;
              if rook \<noteq> (if white then WHITE_ROOK else BLACK_ROOK) then Some False
              else do {
                clear \<leftarrow> canCastle_between chess fr step rookCol (fc + step);
                if \<not> clear then Some False
                else do {
                  chk \<leftarrow> isKingInCheck chess white;
                  if chk then Some False
                  else canCastle_transit chess fr step (tc + step) white fc } } } } }"

definition kingMove :: "ChessState \<Rightarrow> int \<Rightarrow> int \<Rightarrow> int \<Rightarrow> int \<Rightarrow> bool option" where
  "kingMove chess fr fc tr tc =
     (if \<bar>fr - tr\<bar> \<le> 1 \<and> \<bar>fc - tc\<bar> \<le> 1 then Some True
      else if fr = tr \<and> (tc = 6 \<or> tc = 2) then canCastle chess fr fc tr tc
      else Some False)"

definition isLegalMove :: "ChessState \<Rightarrow> int \<Rightarrow> int \<Rightarrow> int \<Rightarrow> int \<Rightarrow> bool option" where
  "isLegalMove chess fr fc tr tc =
     (if \<not> inBounds tr tc then Some False
      else do {
        p \<leftarrow> boardAt chess fr fc;
        if p = EMPTY then Some False
        else do {
          target \<leftarrow> boardAt chess tr tc;
          if sameColor p target then Some False
          else do {
            ok \<leftarrow> (case p of
                     EMPTY \<Rightarrow> Some False
                   | WHITE_PAWN \<Rightarrow> pawnMove chess fr fc tr tc
                   | BLACK_PAWN \<Rightarrow> pawnMove chess fr fc tr tc
                   | WHITE_KNIGHT \<Rightarrow> knightMove chess fr fc tr tc
                   | BLACK_KNIGHT \<Rightarrow> knightMove chess fr fc tr tc
                   | WHITE_BISHOP \<Rightarrow> bishopMove chess fr fc tr tc
                   | BLACK_BISHOP \<Rightarrow> bishopMove chess fr fc tr tc
                   | WHITE_ROOK \<Rightarrow> rookMove chess fr fc tr tc
                   | BLACK_ROOK \<Rightarrow> rookMove chess fr fc tr tc
                   | WHITE_QUEEN \<Rightarrow> queenMove chess fr fc tr tc
                   | BLACK_QUEEN \<Rightarrow> queenMove chess fr fc tr tc
                   | WHITE_KING \<Rightarrow> kingMove chess fr fc tr tc
                   | BLACK_KING \<Rightarrow> kingMove chess fr fc tr tc);
            if \<not> ok then Some False
            else do {
              moved \<leftarrow> boardAt chess fr fc;
              copy1 \<leftarrow> boardSet chess tr tc moved;
              copy2 \<leftarrow> boardSet copy1 fr fc EMPTY;
              landed \<leftarrow> boardAt copy2 tr tc;
              chk \<leftarrow> isKingInCheck copy2 (isWhite landed);
              Some (\<not> chk) } } } })"

section \<open>Move generator\<close>

text \<open>
  \<^verbatim>\<open>getAllMoves\<close>: the outer loops run over the from-squares, the inner loops over the
  to-squares; the list \<open>acc\<close> is \<^verbatim>\<open>moves->moves[0 .. count-1]\<close>, and a move found
  when 256 are stored is skipped.
\<close>

fun getAllMoves_inner ::
  "ChessState \<Rightarrow> int \<Rightarrow> int \<Rightarrow> PieceType \<Rightarrow> Move list \<Rightarrow> (int \<times> int) list
     \<Rightarrow> Move list option" where
  "getAllMoves_inner chess r c p acc [] = Some acc"
| "getAllMoves_inner chess r c p acc ((r2, c2) # rest) =
     do { legal \<leftarrow> isLegalMove chess r c r2 c2;
          if legal
          then (if int (length acc) \<ge> 256 then getAllMoves_inner chess r c p acc rest
                else do {
                  target \<leftarrow> boardAt chess r2 c2;
                  let mv = \<lparr> fromRow = r, fromCol = c, toRow = r2, toCol = c2,
                             captured = target, isPromotion = False,
                             isEnPassant = False, isCastling = False \<rparr>;
                  let mv = (if (p = WHITE_KING \<or> p = BLACK_KING) \<and> c = 4 \<and> \<bar>c2 - c\<bar> = 2
                            then mv\<lparr>isCastling := True\<rparr> else mv);
                  let mv = (if (p = WHITE_PAWN \<and> r2 = 7) \<or> (p = BLACK_PAWN \<and> r2 = 0)
                            then mv\<lparr>isPromotion := True\<rparr> else mv);
                  mv \<leftarrow> (if (p = WHITE_PAWN \<or> p = BLACK_PAWN) \<and> c \<noteq> c2 \<and> target = EMPTY
                          then do {
                            let capRow = (if isWhite p then r2 - 1 else r2 + 1);
                            victim \<leftarrow> boardAt chess capRow c2;
                            Some (mv\<lparr>isEnPassant := True, captured := victim\<rparr>) }
                          else Some mv);
                  getAllMoves_inner chess r c p (acc @ [mv]) rest })
          else getAllMoves_inner chess r c p acc rest }"

fun getAllMoves_outer ::
  "ChessState \<Rightarrow> Move list \<Rightarrow> (int \<times> int) list \<Rightarrow> Move list option" where
  "getAllMoves_outer chess acc [] = Some acc"
| "getAllMoves_outer chess acc ((r, c) # rest) =
     do { p \<leftarrow> boardAt chess r c;
          if p = EMPTY then getAllMoves_outer chess acc rest
          else if whiteToMove chess \<and> isBlack p then getAllMoves_outer chess acc rest
          else if \<not> whiteToMove chess \<and> isWhite p then getAllMoves_outer chess acc rest
          else do { acc' \<leftarrow> getAllMoves_inner chess r c p acc squares;
                    getAllMoves_outer chess acc' rest } }"

definition getAllMoves :: "ChessState \<Rightarrow> Move list option" where
  "getAllMoves chess = getAllMoves_outer chess [] squares"

section \<open>Evaluation\<close>

fun evaluateMaterial_loop ::
  "ChessState \<Rightarrow> bool \<Rightarrow> int \<Rightarrow> (int \<times> int) list \<Rightarrow> int option" where
  "evaluateMaterial_loop chess whitePerspective val [] = Some val"
| "evaluateMaterial_loop chess whitePerspective val ((r, c) # rest) =
     do { p \<leftarrow> boardAt chess r c;
          if p = EMPTY then evaluateMaterial_loop chess whitePerspective val rest
          else
            let v = PIECE_VALUES p in
            if isWhite p
            then evaluateMaterial_loop chess whitePerspective
                   (val + (if whitePerspective then v else - v)) rest
            else evaluateMaterial_loop chess whitePerspective
                   (val + (if whitePerspective then - v else v)) rest }"

definition evaluateMaterial :: "ChessState \<Rightarrow> bool \<Rightarrow> int option" where
  "evaluateMaterial chess whitePerspective =
     evaluateMaterial_loop chess whitePerspective 0 squares"

section \<open>Move application\<close>

text \<open>
  \<^verbatim>\<open>makeMove\<close> and \<^verbatim>\<open>unmakeMove\<close> take a pointer to the undo record that may be
  null: \<open>None\<close> is the null pointer, \<open>Some u\<close> a record whose contents before the call
  are \<open>u\<close>. \<open>makeMove\<close> returns the position and the contents of the record after the
  call (with a null pointer it fills a local record that is lost on return). The fields
  \<^verbatim>\<open>capturedRow\<close> and \<^verbatim>\<open>capturedCol\<close> are written for an en-passant move only, so
  otherwise they keep what the caller's record held.
\<close>

definition makeMove ::
  "ChessState \<Rightarrow> Move \<Rightarrow> UndoInfo option \<Rightarrow> (ChessState \<times> UndoInfo option) option" where
  "makeMove chess move undo0 =
     do { let undo1 = map_option (\<lambda>u. u\<lparr> undo_hasCastledWhite := hasCastledWhite chess,
                                          undo_hasCastledBlack := hasCastledBlack chess,
                                          undo_enPassantCol := enPassantCol chess,
                                          capturedPiece := captured move \<rparr>) undo0;
          moving \<leftarrow> boardAt chess (fromRow move) (fromCol move);
          chess1 \<leftarrow> (if isCastling move
                     then do {
                       let rookFromCol = (if toCol move = 6 then 7 else 0);
                       let rookToCol = (if toCol move = 6 then 5 else 3);
                       rook \<leftarrow> boardAt chess (fromRow move) rookFromCol;
                       c1 \<leftarrow> boardSet chess (fromRow move) rookToCol rook;
                       c2 \<leftarrow> boardSet c1 (fromRow move) rookFromCol EMPTY;
                       Some (if moving = WHITE_KING
                             then c2\<lparr>hasCastledWhite :=
                                      (if toCol move = 6
                                       then (True, snd (hasCastledWhite c2))
                                       else (fst (hasCastledWhite c2), True))\<rparr>
                             else c2\<lparr>hasCastledBlack :=
                                      (if toCol move = 6
                                       then (True, snd (hasCastledBlack c2))
                                       else (fst (hasCastledBlack c2), True))\<rparr>) }
                     else Some chess);
          (chess2, undo2) \<leftarrow> (if isEnPassant move
                     then do {
                       let capRow = (if isWhite moving then toRow move - 1
                                     else toRow move + 1);
                       c1 \<leftarrow> boardSet chess1 capRow (toCol move) EMPTY;
                       Some (c1, map_option (\<lambda>u. u\<lparr> capturedRow := capRow,
                                                       capturedCol := toCol move \<rparr>) undo1) }
                     else Some (chess1, undo1));
          let moving = (if isPromotion move
                        then (if isWhite moving then WHITE_QUEEN else BLACK_QUEEN)
                        else moving);
          let chess3 = chess2\<lparr>enPassantCol := -1\<rparr>;
          let chess4 = (if (moving = WHITE_PAWN \<or> moving = BLACK_PAWN)
                           \<and> \<bar>toRow move - fromRow move\<bar> = 2
                        then chess3\<lparr>enPassantCol := fromCol move\<rparr> else chess3);
          let chess5 =
            (if moving = WHITE_KING then chess4\<lparr>hasCastledWhite := (True, True)\<rparr>
             else if moving = BLACK_KING then chess4\<lparr>hasCastledBlack := (True, True)\<rparr>
             else if moving = WHITE_ROOK then
               (let a = (if fromRow move = 0 \<and> fromCol move = 7
                         then chess4\<lparr>hasCastledWhite := (True, snd (hasCastledWhite chess4))\<rparr>
                         else chess4)
                in if fromRow move = 0 \<and> fromCol move = 0
                   then a\<lparr>hasCastledWhite := (fst (hasCastledWhite a), True)\<rparr> else a)
             else if moving = BLACK_ROOK then
               (let a = (if fromRow move = 7 \<and> fromCol move = 7
                         then chess4\<lparr>hasCastledBlack := (True, snd (hasCastledBlack chess4))\<rparr>
                         else chess4)
                in if fromRow move = 7 \<and> fromCol move = 0
                   then a\<lparr>hasCastledBlack := (fst (hasCastledBlack a), True)\<rparr> else a)
             else chess4);
          chess6 \<leftarrow> boardSet chess5 (toRow move) (toCol move) moving;
          chess7 \<leftarrow> boardSet chess6 (fromRow move) (fromCol move) EMPTY;
          Some (chess7\<lparr>whiteToMove := \<not> whiteToMove chess7\<rparr>, undo2) }"

definition unmakeMove :: "ChessState \<Rightarrow> Move \<Rightarrow> UndoInfo option \<Rightarrow> ChessState option" where
  "unmakeMove chess move undo0 =
     (case undo0 of
        None \<Rightarrow> Some chess
      | Some undo \<Rightarrow> do {
          let chess1 = chess\<lparr>whiteToMove := \<not> whiteToMove chess\<rparr>;
          moving \<leftarrow> boardAt chess1 (toRow move) (toCol move);
          let moving = (if isPromotion move
                        then (if isWhite moving then WHITE_PAWN else BLACK_PAWN)
                        else moving);
          chess2 \<leftarrow> boardSet chess1 (fromRow move) (fromCol move) moving;
          chess3 \<leftarrow> boardSet chess2 (toRow move) (toCol move) (capturedPiece undo);
          chess4 \<leftarrow> (if isCastling move
                     then do {
                       let rookFromCol = (if toCol move = 6 then 7 else 0);
                       let rookToCol = (if toCol move = 6 then 5 else 3);
                       rook \<leftarrow> boardAt chess3 (fromRow move) rookToCol;
                       c1 \<leftarrow> boardSet chess3 (fromRow move) rookFromCol rook;
                       boardSet c1 (fromRow move) rookToCol EMPTY }
                     else Some chess3);
          chess5 \<leftarrow> (if isEnPassant move
                     then do {
                       c1 \<leftarrow> boardSet chess4 (capturedRow undo) (capturedCol undo)
                               (capturedPiece undo);
                       boardSet c1 (toRow move) (toCol move) EMPTY }
                     else Some chess4);
          Some (chess5\<lparr> hasCastledWhite := undo_hasCastledWhite undo,
                         hasCastledBlack := undo_hasCastledBlack undo,
                         enPassantCol := undo_enPassantCol undo \<rparr>) })"

section \<open>Search\<close>

text \<open>
  \<^verbatim>\<open>minimax\<close> works on the position in place, so the model returns the score together
  with the position the call leaves behind. \<open>minimax_loop\<close> is the loop over the move
  list, with \<open>best\<close> as its accumulator; the source has one copy of the loop for each
  value of \<^verbatim>\<open>whitePerspective\<close>, which differ in the start value of \<open>best\<close> and the
  direction of the comparison only. The depth is a C \<^verbatim>\<open>int\<close> that the callers start
  at 0 to 4 and count down to 0, here a natural number. The argument \<open>u\<close> is what the
  uninitialised local \<^verbatim>\<open>UndoInfo u\<close> holds before \<^verbatim>\<open>makeMove\<close> fills it. The
  counter \<^verbatim>\<open>engine->progress.nodesSearched\<close>, which \<^verbatim>\<open>minimax\<close> increments and never
  reads, is left out.
\<close>

fun minimax :: "UndoInfo \<Rightarrow> ChessState \<Rightarrow> nat \<Rightarrow> bool \<Rightarrow> (int \<times> ChessState) option"
  and minimax_loop ::
    "UndoInfo \<Rightarrow> ChessState \<Rightarrow> nat \<Rightarrow> bool \<Rightarrow> int \<Rightarrow> Move list \<Rightarrow> (int \<times> ChessState) option"
  where
  "minimax u chess 0 whitePerspective =
     do { v \<leftarrow> evaluateMaterial chess whitePerspective; Some (v, chess) }"
| "minimax u chess (Suc depth) whitePerspective =
     do { moves \<leftarrow> getAllMoves chess;
          if length moves = 0
          then do { chk \<leftarrow> isKingInCheck chess (whiteToMove chess);
                    if chk then Some (if whitePerspective then - 10000 else 10000, chess)
                    else Some (0, chess) }
          else minimax_loop u chess depth whitePerspective
                 (if whitePerspective then - 10000 else 10000) moves }"
| "minimax_loop u chess depth whitePerspective best [] = Some (best, chess)"
| "minimax_loop u chess depth whitePerspective best (m # ms) =
     do { (chess1, undo) \<leftarrow> makeMove chess m (Some u);
          (score, chess2) \<leftarrow> minimax u chess1 depth (\<not> whitePerspective);
          chess3 \<leftarrow> unmakeMove chess2 m undo;
          let best = (if whitePerspective then (if score > best then score else best)
                      else (if score < best then score else best));
          minimax_loop u chess3 depth whitePerspective best ms }"

section \<open>Example positions\<close>

text \<open>
  Positions used to run the functions above on concrete inputs. Each has one king per
  side. \<open>lonePawn\<close>: White Ka1 and a pawn on e2, Black Kh8. \<open>beforePush\<close>: White Ke1
  and a pawn on e5, Black Ke8 and a pawn on d7, Black to move; \<open>pushMove\<close> is the
  double push d7-d5. \<open>backRankMate\<close>: Black Kh8 behind its pawns g7 and h7, checked by
  the white rook on a8, Black to move. \<open>queenStalemate\<close>: Black Kh8, White Kf7 and
  Qg6, Black to move. \<open>pawnGuardsTransit\<close>: White Ke1 and Rh1 with castling rights,
  a black pawn on e2, Black Ke8. \<open>castleReady\<close>: White Ke1 and Rh1 with castling
  rights, Black Ke8; \<open>put\<close> places one more piece on a position. \<open>blankUndo\<close> is an
  undo record to hand to \<^verbatim>\<open>makeMove\<close>, \<open>quiet\<close> a move without capture and flags.
\<close>

definition emptyBoard :: "int \<Rightarrow> int \<Rightarrow> PieceType" where
  "emptyBoard = (\<lambda>r c. EMPTY)"

definition lonePawn :: ChessState where
  "lonePawn = initChessState\<lparr>board :=
     emptyBoard(0 := (emptyBoard 0)(0 := WHITE_KING),
                1 := (emptyBoard 1)(4 := WHITE_PAWN),
                7 := (emptyBoard 7)(7 := BLACK_KING))\<rparr>"

definition beforePush :: ChessState where
  "beforePush = initChessState\<lparr>board :=
     emptyBoard(0 := (emptyBoard 0)(4 := WHITE_KING),
                4 := (emptyBoard 4)(4 := WHITE_PAWN),
                6 := (emptyBoard 6)(3 := BLACK_PAWN),
                7 := (emptyBoard 7)(4 := BLACK_KING)),
     whiteToMove := False\<rparr>"

definition pushMove :: Move where
  "pushMove = \<lparr> fromRow = 6, fromCol = 3, toRow = 4, toCol = 3, captured = EMPTY,
                 isPromotion = False, isEnPassant = False, isCastling = False \<rparr>"

definition backRankMate :: ChessState where
  "backRankMate = initChessState\<lparr>board :=
     emptyBoard(0 := (emptyBoard 0)(0 := WHITE_KING),
                6 := (emptyBoard 6)(6 := BLACK_PAWN, 7 := BLACK_PAWN),
                7 := (emptyBoard 7)(0 := WHITE_ROOK, 7 := BLACK_KING)),
     whiteToMove := False\<rparr>"

definition queenStalemate :: ChessState where
  "queenStalemate = initChessState\<lparr>board :=
     emptyBoard(5 := (emptyBoard 5)(6 := WHITE_QUEEN),
                6 := (emptyBoard 6)(5 := WHITE_KING),
                7 := (emptyBoard 7)(7 := BLACK_KING)),
     whiteToMove := False\<rparr>"

definition pawnGuardsTransit :: ChessState where
  "pawnGuardsTransit = initChessState\<lparr>board :=
     emptyBoard(0 := (emptyBoard 0)(4 := WHITE_KING, 7 := WHITE_ROOK),
                1 := (emptyBoard 1)(4 := BLACK_PAWN),
                7 := (emptyBoard 7)(4 := BLACK_KING))\<rparr>"

definition blankUndo :: UndoInfo where
  "blankUndo = \<lparr> undo_hasCastledWhite = (False, False), undo_hasCastledBlack = (False, False),
                  undo_enPassantCol = 0, capturedPiece = EMPTY, capturedRow = 0,
                  capturedCol = 0 \<rparr>"

definition quiet :: "int \<Rightarrow> int \<Rightarrow> int \<Rightarrow> int \<Rightarrow> Move" where
  "quiet r c r2 c2 = \<lparr> fromRow = r, fromCol = c, toRow = r2, toCol = c2, captured = EMPTY,
                        isPromotion = False, isEnPassant = False, isCastling = False \<rparr>"

text \<open>The moves of the starting position, in generation order.\<close>

definition openingMoves :: "Move list" where
  "openingMoves =
     [quiet 0 1 2 0, quiet 0 1 2 2, quiet 0 6 2 5, quiet 0 6 2 7,
      quiet 1 0 2 0, quiet 1 0 3 0, quiet 1 1 2 1, quiet 1 1 3 1,
      quiet 1 2 2 2, quiet 1 2 3 2, quiet 1 3 2 3, quiet 1 3 3 3,
      quiet 1 4 2 4, quiet 1 4 3 4, quiet 1 5 2 5, quiet 1 5 3 5,
      quiet 1 6 2 6, quiet 1 6 3 6, quiet 1 7 2 7, quiet 1 7 3 7]"

definition put :: "ChessState \<Rightarrow> int \<Rightarrow> int \<Rightarrow> PieceType \<Rightarrow> ChessState" where
  "put chess r c p = chess\<lparr>board := (board chess)(r := (board chess r)(c := p))\<rparr>"

definition castleReady :: ChessState where
  "castleReady = initChessState\<lparr>board :=
     emptyBoard(0 := (emptyBoard 0)(4 := WHITE_KING, 7 := WHITE_ROOK),
                7 := (emptyBoard 7)(4 := BLACK_KING))\<rparr>"

section \<open>Notions used in the proofs\<close>

text \<open>
  What the functions of the program compute on squares inside the board, written without
  the option monad: the squares strictly between two aligned squares, the reach of each
  piece, the attack of a colour on a square and the check on the first king of a colour
  in scan order, all as functions of the board alone; the conditions of \<^verbatim>\<open>canCastle\<close>
  and \<^verbatim>\<open>isLegalMove\<close>; the shape of a move that \<^verbatim>\<open>getAllMoves\<close> builds; the steps of
  \<^verbatim>\<open>makeMove\<close> and \<^verbatim>\<open>unmakeMove\<close> on the board and on the flags; and the relation
  \<open>shields\<close> between two boards under which a king that is safe on the first is safe on
  the second. None of them is part of the model: the lemmas below connect each to the
  function of the program it describes, and the theorems about the program (C1 to C10
  below) are stated on the functions of the program only.
\<close>

definition pathSquares :: "int \<Rightarrow> int \<Rightarrow> int \<Rightarrow> int \<Rightarrow> (int \<times> int) set" where
  "pathSquares fr fc tr tc =
     {(fr + int k * sgn (tr - fr), fc + int k * sgn (tc - fc)) | k.
        0 < k \<and> k < nat (max \<bar>tr - fr\<bar> \<bar>tc - fc\<bar>)}"

definition aligned :: "int \<Rightarrow> int \<Rightarrow> int \<Rightarrow> int \<Rightarrow> bool" where
  "aligned fr fc tr tc = (fr = tr \<or> fc = tc \<or> \<bar>fr - tr\<bar> = \<bar>fc - tc\<bar>)"

definition pathFree :: "(int \<Rightarrow> int \<Rightarrow> PieceType) \<Rightarrow> int \<Rightarrow> int \<Rightarrow> int \<Rightarrow> int \<Rightarrow> bool" where
  "pathFree b fr fc tr tc = (\<forall>(r, c) \<in> pathSquares fr fc tr tc. b r c = EMPTY)"

definition pawnReach :: "(int \<Rightarrow> int \<Rightarrow> PieceType) \<Rightarrow> int \<Rightarrow> int \<Rightarrow> int \<Rightarrow> int \<Rightarrow> bool" where
  "pawnReach b fr fc tr tc =
     (let dir = (if isWhite (b fr fc) then 1 else - 1);
          startRow = (if isWhite (b fr fc) then 1 else 6)
      in (fc = tc \<and> tr = fr + dir \<and> b tr tc = EMPTY)
         \<or> (fc = tc \<and> fr = startRow \<and> tr = fr + 2 * dir \<and> b (fr + dir) fc = EMPTY
              \<and> b tr tc = EMPTY)
         \<or> (\<bar>tc - fc\<bar> = 1 \<and> tr = fr + dir \<and> b tr tc \<noteq> EMPTY))"

definition knightReach :: "int \<Rightarrow> int \<Rightarrow> int \<Rightarrow> int \<Rightarrow> bool" where
  "knightReach fr fc tr tc =
     ((\<bar>tr - fr\<bar> = 2 \<and> \<bar>tc - fc\<bar> = 1) \<or> (\<bar>tr - fr\<bar> = 1 \<and> \<bar>tc - fc\<bar> = 2))"

definition rookReach :: "(int \<Rightarrow> int \<Rightarrow> PieceType) \<Rightarrow> int \<Rightarrow> int \<Rightarrow> int \<Rightarrow> int \<Rightarrow> bool" where
  "rookReach b fr fc tr tc = ((fr = tr \<or> fc = tc) \<and> pathFree b fr fc tr tc)"

definition bishopReach :: "(int \<Rightarrow> int \<Rightarrow> PieceType) \<Rightarrow> int \<Rightarrow> int \<Rightarrow> int \<Rightarrow> int \<Rightarrow> bool" where
  "bishopReach b fr fc tr tc = (\<bar>fr - tr\<bar> = \<bar>fc - tc\<bar> \<and> pathFree b fr fc tr tc)"

definition kingStep :: "int \<Rightarrow> int \<Rightarrow> int \<Rightarrow> int \<Rightarrow> bool" where
  "kingStep fr fc tr tc = (\<bar>fr - tr\<bar> \<le> 1 \<and> \<bar>fc - tc\<bar> \<le> 1)"

definition attacks :: "(int \<Rightarrow> int \<Rightarrow> PieceType) \<Rightarrow> int \<Rightarrow> int \<Rightarrow> int \<Rightarrow> int \<Rightarrow> bool" where
  "attacks b fr fc tr tc =
     (inBounds tr tc \<and>
      (case b fr fc of
         EMPTY \<Rightarrow> False
       | WHITE_PAWN \<Rightarrow> pawnReach b fr fc tr tc
       | BLACK_PAWN \<Rightarrow> pawnReach b fr fc tr tc
       | WHITE_KNIGHT \<Rightarrow> knightReach fr fc tr tc
       | BLACK_KNIGHT \<Rightarrow> knightReach fr fc tr tc
       | WHITE_BISHOP \<Rightarrow> bishopReach b fr fc tr tc
       | BLACK_BISHOP \<Rightarrow> bishopReach b fr fc tr tc
       | WHITE_ROOK \<Rightarrow> rookReach b fr fc tr tc
       | BLACK_ROOK \<Rightarrow> rookReach b fr fc tr tc
       | WHITE_QUEEN \<Rightarrow> rookReach b fr fc tr tc \<or> bishopReach b fr fc tr tc
       | BLACK_QUEEN \<Rightarrow> rookReach b fr fc tr tc \<or> bishopReach b fr fc tr tc
       | WHITE_KING \<Rightarrow> kingStep fr fc tr tc
       | BLACK_KING \<Rightarrow> kingStep fr fc tr tc))"

definition ofColor :: "bool \<Rightarrow> PieceType \<Rightarrow> bool" where
  "ofColor white p = (if white then isWhite p else isBlack p)"

definition attacked :: "(int \<Rightarrow> int \<Rightarrow> PieceType) \<Rightarrow> int \<Rightarrow> int \<Rightarrow> bool \<Rightarrow> bool" where
  "attacked b r c byWhite =
     (\<exists>(fr, fc) \<in> set squares. ofColor byWhite (b fr fc) \<and> attacks b fr fc r c)"

definition kingOf :: "bool \<Rightarrow> PieceType" where
  "kingOf white = (if white then WHITE_KING else BLACK_KING)"

definition inCheck :: "(int \<Rightarrow> int \<Rightarrow> PieceType) \<Rightarrow> bool \<Rightarrow> bool" where
  "inCheck b white =
     (case find (\<lambda>(r, c). b r c = kingOf white) squares of
        None \<Rightarrow> False
      | Some (r, c) \<Rightarrow> attacked b r c (\<not> white))"

definition rightsLost :: "ChessState \<Rightarrow> bool \<Rightarrow> int \<Rightarrow> bool" where
  "rightsLost chess white tc =
     (if white then (if tc = 6 then fst (hasCastledWhite chess) else snd (hasCastledWhite chess))
      else (if tc = 6 then fst (hasCastledBlack chess) else snd (hasCastledBlack chess)))"

definition castleOK :: "ChessState \<Rightarrow> int \<Rightarrow> int \<Rightarrow> bool" where
  "castleOK chess fr tc =
     (let b = board chess; white = isWhite (b fr 4) in
      fr = (if white then 0 else 7)
      \<and> \<not> rightsLost chess white tc
      \<and> b fr (if tc = 6 then 7 else 0) = (if white then WHITE_ROOK else BLACK_ROOK)
      \<and> (if tc = 6 then b fr 5 = EMPTY \<and> b fr 6 = EMPTY
          else b fr 3 = EMPTY \<and> b fr 2 = EMPTY \<and> b fr 1 = EMPTY)
      \<and> \<not> inCheck b white
      \<and> (if tc = 6
          then \<not> attacked b fr 4 (\<not> white) \<and> \<not> attacked b fr 5 (\<not> white)
               \<and> \<not> attacked b fr 6 (\<not> white)
          else \<not> attacked b fr 4 (\<not> white) \<and> \<not> attacked b fr 3 (\<not> white)
               \<and> \<not> attacked b fr 2 (\<not> white)))"

definition movePiece ::
  "(int \<Rightarrow> int \<Rightarrow> PieceType) \<Rightarrow> int \<Rightarrow> int \<Rightarrow> int \<Rightarrow> int \<Rightarrow> int \<Rightarrow> int \<Rightarrow> PieceType" where
  "movePiece b fr fc tr tc =
     (let b1 = b(tr := (b tr)(tc := b fr fc)) in b1(fr := (b1 fr)(fc := EMPTY)))"

definition isKing :: "PieceType \<Rightarrow> bool" where
  "isKing p = (p = WHITE_KING \<or> p = BLACK_KING)"

definition legal :: "ChessState \<Rightarrow> int \<Rightarrow> int \<Rightarrow> int \<Rightarrow> int \<Rightarrow> bool" where
  "legal chess fr fc tr tc =
     (let b = board chess; p = b fr fc in
      inBounds tr tc \<and> p \<noteq> EMPTY \<and> \<not> sameColor p (b tr tc)
      \<and> (attacks b fr fc tr tc
          \<or> (isKing p \<and> fr = tr \<and> (tc = 6 \<or> tc = 2) \<and> fc = 4 \<and> castleOK chess fr tc))
      \<and> \<not> inCheck (movePiece b fr fc tr tc) (isWhite p))"

definition generated :: "ChessState \<Rightarrow> Move \<Rightarrow> bool" where
  "generated chess m =
     (let b = board chess; r = fromRow m; c = fromCol m; r2 = toRow m; c2 = toCol m;
          p = b r c in
      inBounds r c \<and> ofColor (whiteToMove chess) p \<and> legal chess r c r2 c2
      \<and> m = \<lparr> fromRow = r, fromCol = c, toRow = r2, toCol = c2, captured = b r2 c2,
               isPromotion = ((p = WHITE_PAWN \<and> r2 = 7) \<or> (p = BLACK_PAWN \<and> r2 = 0)),
               isEnPassant = False,
               isCastling = (isKing p \<and> c = 4 \<and> \<bar>c2 - c\<bar> = 2) \<rparr>)"

definition castleFlag :: "ChessState \<Rightarrow> Move \<Rightarrow> PieceType \<Rightarrow> ChessState" where
  "castleFlag c2 move moving =
     (if moving = WHITE_KING
      then c2\<lparr>hasCastledWhite :=
               (if toCol move = 6
                then (True, snd (hasCastledWhite c2))
                else (fst (hasCastledWhite c2), True))\<rparr>
      else c2\<lparr>hasCastledBlack :=
               (if toCol move = 6
                then (True, snd (hasCastledBlack c2))
                else (fst (hasCastledBlack c2), True))\<rparr>)"

definition rightsStep :: "ChessState \<Rightarrow> Move \<Rightarrow> PieceType \<Rightarrow> ChessState" where
  "rightsStep chess4 move moving =
            (if moving = WHITE_KING then chess4\<lparr>hasCastledWhite := (True, True)\<rparr>
             else if moving = BLACK_KING then chess4\<lparr>hasCastledBlack := (True, True)\<rparr>
             else if moving = WHITE_ROOK then
               (let a = (if fromRow move = 0 \<and> fromCol move = 7
                         then chess4\<lparr>hasCastledWhite := (True, snd (hasCastledWhite chess4))\<rparr>
                         else chess4)
                in if fromRow move = 0 \<and> fromCol move = 0
                   then a\<lparr>hasCastledWhite := (fst (hasCastledWhite a), True)\<rparr> else a)
             else if moving = BLACK_ROOK then
               (let a = (if fromRow move = 7 \<and> fromCol move = 7
                         then chess4\<lparr>hasCastledBlack := (True, snd (hasCastledBlack chess4))\<rparr>
                         else chess4)
                in if fromRow move = 7 \<and> fromCol move = 0
                   then a\<lparr>hasCastledBlack := (fst (hasCastledBlack a), True)\<rparr> else a)
             else chess4)"

definition promoted :: "Move \<Rightarrow> PieceType \<Rightarrow> PieceType" where
  "promoted move moving =
     (if isPromotion move then (if isWhite moving then WHITE_QUEEN else BLACK_QUEEN)
      else moving)"

definition pushStep :: "ChessState \<Rightarrow> Move \<Rightarrow> PieceType \<Rightarrow> ChessState" where
  "pushStep chess2 move moving =
     (if (moving = WHITE_PAWN \<or> moving = BLACK_PAWN) \<and> \<bar>toRow move - fromRow move\<bar> = 2
      then chess2\<lparr>enPassantCol := - 1\<rparr>\<lparr>enPassantCol := fromCol move\<rparr>
      else chess2\<lparr>enPassantCol := - 1\<rparr>)"

definition savedUndo :: "ChessState \<Rightarrow> Move \<Rightarrow> UndoInfo \<Rightarrow> UndoInfo" where
  "savedUndo chess move =
     (\<lambda>u. u\<lparr> undo_hasCastledWhite := hasCastledWhite chess,
             undo_hasCastledBlack := hasCastledBlack chess,
             undo_enPassantCol := enPassantCol chess,
             capturedPiece := captured move \<rparr>)"

definition boardAfter ::
  "(int \<Rightarrow> int \<Rightarrow> PieceType) \<Rightarrow> Move \<Rightarrow> PieceType \<Rightarrow> int \<Rightarrow> int \<Rightarrow> PieceType" where
  "boardAfter b m moving =
     (let b1 = b(toRow m := (b (toRow m))(toCol m := moving))
      in b1(fromRow m := (b1 (fromRow m))(fromCol m := EMPTY)))"

definition rookMoved ::
  "(int \<Rightarrow> int \<Rightarrow> PieceType) \<Rightarrow> Move \<Rightarrow> int \<Rightarrow> int \<Rightarrow> PieceType" where
  "rookMoved b m =
     (let rookFromCol = (if toCol m = 6 then 7 else 0);
          rookToCol = (if toCol m = 6 then 5 else 3);
          b1 = b(fromRow m := (b (fromRow m))(rookToCol := b (fromRow m) rookFromCol))
      in b1(fromRow m := (b1 (fromRow m))(rookFromCol := EMPTY)))"

definition unBoard ::
  "(int \<Rightarrow> int \<Rightarrow> PieceType) \<Rightarrow> Move \<Rightarrow> PieceType \<Rightarrow> int \<Rightarrow> int \<Rightarrow> PieceType" where
  "unBoard b m cap =
     (let moving = (if isPromotion m
                    then (if isWhite (b (toRow m) (toCol m)) then WHITE_PAWN else BLACK_PAWN)
                    else b (toRow m) (toCol m));
          b2 = b(fromRow m := (b (fromRow m))(fromCol m := moving));
          b3 = b2(toRow m := (b2 (toRow m))(toCol m := cap))
      in if isCastling m
         then (let rookFromCol = (if toCol m = 6 then 7 else 0);
                   rookToCol = (if toCol m = 6 then 5 else 3);
                   b4 = b3(fromRow m := (b3 (fromRow m))(rookFromCol := b3 (fromRow m) rookToCol))
               in b4(fromRow m := (b4 (fromRow m))(rookToCol := EMPTY)))
         else b3)"

definition corner :: "int \<Rightarrow> int \<Rightarrow> bool" where
  "corner r c = ((r = 0 \<or> r = 7) \<and> (c = 0 \<or> c = 7))"

definition shields ::
  "bool \<Rightarrow> (int \<Rightarrow> int \<Rightarrow> PieceType) \<Rightarrow> (int \<Rightarrow> int \<Rightarrow> PieceType) \<Rightarrow> bool" where
  "shields w b b' =
     (\<forall>r c. inBounds r c \<longrightarrow>
        (ofColor (\<not> w) (b' r c) \<longrightarrow> b r c = b' r c)
        \<and> (b' r c = EMPTY \<longrightarrow> b r c = EMPTY \<or> corner r c)
        \<and> ((b r c = kingOf w) = (b' r c = kingOf w)))"

section \<open>The oracle on squares inside the board\<close>

lemma upto_0_7: "[0..7::int] = [0,1,2,3,4,5,6,7]" by (simp add: upto.simps)

lemma set_squares: "set squares = {(r, c). inBounds r c}"
  by (auto simp: squares_def inBounds_def image_iff)

lemma boardAt_Some: "inBounds r c \<Longrightarrow> boardAt chess r c = Some (board chess r c)"
  by (simp add: boardAt_def)

lemma all_less_Suc_shift: "(\<forall>k<Suc n. P k) = (P 0 \<and> (\<forall>k<n. P (Suc k)))"
  by (auto simp: less_Suc_eq_0_disj)

lemma pathClear_loop_steps:
  assumes "dr \<noteq> 0 \<or> dc \<noteq> 0"
    and "\<forall>k<n. inBounds (r + int k * dr) (c + int k * dc)"
  shows "pathClear_loop chess dr dc (r + int n * dr) (c + int n * dc) r c
         = Some (\<forall>k<n. board chess (r + int k * dr) (c + int k * dc) = EMPTY)"
  using assms(2)
proof (induction n arbitrary: r c)
  case 0
  show ?case by (subst pathClear_loop.simps) simp
next
  case (Suc n)
  have here: "inBounds r c" using Suc.prems by (auto simp: all_less_Suc_shift)
  have rest: "\<forall>k<n. inBounds (r + dr + int k * dr) (c + dc + int k * dc)"
    using Suc.prems by (auto simp: all_less_Suc_shift algebra_simps)
  have away: "r \<noteq> r + int (Suc n) * dr \<or> c \<noteq> c + int (Suc n) * dc"
    using assms(1) by auto
  have tgt: "r + int (Suc n) * dr = (r + dr) + int n * dr"
            "c + int (Suc n) * dc = (c + dc) + int n * dc"
    by (simp_all add: algebra_simps)
  have ih: "pathClear_loop chess dr dc (r + dr + int n * dr) (c + dc + int n * dc) (r + dr) (c + dc)
         = Some (\<forall>k<n. board chess (r + dr + int k * dr) (c + dc + int k * dc) = EMPTY)"
    by (rule Suc.IH[OF rest])
  show ?case
    apply (subst pathClear_loop.simps)
    using away here ih
    apply (simp only: tgt)
    apply (simp add: boardAt_Some all_less_Suc_shift algebra_simps)
    done
qed

lemma pathSquares_I:
  "0 < k \<Longrightarrow> k < nat (max \<bar>tr - fr\<bar> \<bar>tc - fc\<bar>) \<Longrightarrow>
   (fr + int k * sgn (tr - fr), fc + int k * sgn (tc - fc)) \<in> pathSquares fr fc tr tc"
  unfolding pathSquares_def by blast

lemma pathSquares_inner:
  assumes "inBounds fr fc" "inBounds tr tc" "aligned fr fc tr tc" "(r, c) \<in> pathSquares fr fc tr tc"
  shows "inBounds r c \<and> \<not> ((r = 0 \<or> r = 7) \<and> (c = 0 \<or> c = 7))"
proof -
  obtain k where k: "0 < k" "k < nat (max \<bar>tr - fr\<bar> \<bar>tc - fc\<bar>)"
    "r = fr + int k * sgn (tr - fr)" "c = fc + int k * sgn (tc - fc)"
    using assms(4) by (auto simp: pathSquares_def)
  show ?thesis
    using assms(1-3) k
    by (auto simp: inBounds_def aligned_def sgn_if split: if_splits)
qed

lemma pathClear_aligned:
  assumes "inBounds fr fc" "inBounds tr tc" "aligned fr fc tr tc"
  shows "pathClear chess fr fc tr tc = Some (pathFree (board chess) fr fc tr tc)"
proof -
  define dr where "dr = sgn (tr - fr)"
  define dc where "dc = sgn (tc - fc)"
  define n where "n = nat (max \<bar>tr - fr\<bar> \<bar>tc - fc\<bar>)"
  have pc: "pathClear chess fr fc tr tc = pathClear_loop chess dr dc tr tc (fr + dr) (fc + dc)"
    by (simp add: pathClear_def dr_def dc_def Let_def sgn_if)
  have tgt: "tr = fr + int n * dr" "tc = fc + int n * dc"
    using assms(3) by (auto simp: n_def dr_def dc_def aligned_def sgn_if split: if_splits)
  show ?thesis
  proof (cases "n = 0")
    case True
    then have same: "tr = fr" "tc = fc" "dr = 0" "dc = 0" using tgt by (auto simp: dr_def dc_def)
    have "pathSquares fr fc tr tc = {}" using True by (auto simp: pathSquares_def n_def)
    moreover have "pathClear_loop chess 0 0 fr fc fr fc = Some True"
      by (subst pathClear_loop.simps) simp
    then have "pathClear chess fr fc tr tc = Some True"
      using pc same by simp
    ultimately show ?thesis by (simp add: pathFree_def)
  next
    case False
    then obtain m where m: "n = Suc m" by (cases n) auto
    have d: "dr \<noteq> 0 \<or> dc \<noteq> 0" using False by (auto simp: n_def dr_def dc_def sgn_if)
    have inb: "\<forall>k<m. inBounds (fr + dr + int k * dr) (fc + dc + int k * dc)"
    proof (intro allI impI)
      fix k assume "k < m"
      then have "(fr + int (Suc k) * dr, fc + int (Suc k) * dc) \<in> pathSquares fr fc tr tc"
        using m pathSquares_I[of "Suc k" tr fr tc fc] by (simp add: n_def dr_def dc_def)
      from pathSquares_inner[OF assms this]
      show "inBounds (fr + dr + int k * dr) (fc + dc + int k * dc)" by (simp add: algebra_simps)
    qed
    have t2: "tr = (fr + dr) + int m * dr" "tc = (fc + dc) + int m * dc"
      using tgt m by (simp_all add: algebra_simps)
    have "pathClear chess fr fc tr tc
          = Some (\<forall>k<m. board chess (fr + dr + int k * dr) (fc + dc + int k * dc) = EMPTY)"
      unfolding pc using pathClear_loop_steps[OF d inb, of chess] t2 by simp
    moreover have "(\<forall>k<m. board chess (fr + dr + int k * dr) (fc + dc + int k * dc) = EMPTY)
          = (\<forall>(r, c) \<in> pathSquares fr fc tr tc. board chess r c = EMPTY)"
    proof
      assume a: "\<forall>k<m. board chess (fr + dr + int k * dr) (fc + dc + int k * dc) = EMPTY"
      show "\<forall>(r, c) \<in> pathSquares fr fc tr tc. board chess r c = EMPTY"
      proof (clarify)
        fix r c assume "(r, c) \<in> pathSquares fr fc tr tc"
        then obtain k where k: "0 < k" "k < n" "r = fr + int k * dr" "c = fc + int k * dc"
          by (auto simp: pathSquares_def n_def dr_def dc_def)
        then obtain j where j: "k = Suc j" by (cases k) auto
        then have "j < m" using k m by simp
        from a[rule_format, OF this] show "board chess r c = EMPTY"
          using k j by (simp add: algebra_simps)
      qed
    next
      assume a: "\<forall>(r, c) \<in> pathSquares fr fc tr tc. board chess r c = EMPTY"
      show "\<forall>k<m. board chess (fr + dr + int k * dr) (fc + dc + int k * dc) = EMPTY"
      proof (intro allI impI)
        fix k assume "k < m"
        then have "(fr + int (Suc k) * dr, fc + int (Suc k) * dc) \<in> pathSquares fr fc tr tc"
          using m pathSquares_I[of "Suc k" tr fr tc fc] by (simp add: n_def dr_def dc_def)
        with a show "board chess (fr + dr + int k * dr) (fc + dc + int k * dc) = EMPTY"
          by (auto simp: algebra_simps)
      qed
    qed
    ultimately show ?thesis by (simp add: pathFree_def)
  qed
qed

lemma pawnMove_pure:
  assumes "inBounds fr fc" "inBounds tr tc"
  shows "pawnMove chess fr fc tr tc = Some (pawnReach (board chess) fr fc tr tc)"
proof -
  have r1: "boardAt chess fr fc = Some (board chess fr fc)"
    and r2: "boardAt chess tr tc = Some (board chess tr tc)"
    using assms by (simp_all add: boardAt_Some)
  have r3: "boardAt chess 2 fc = Some (board chess 2 fc)" "boardAt chess 2 tc = Some (board chess 2 tc)"
    and r4: "boardAt chess 5 fc = Some (board chess 5 fc)" "boardAt chess 5 tc = Some (board chess 5 tc)"
    using assms by (simp_all add: boardAt_def inBounds_def)
  show ?thesis
    using r1 r2 r3 r4
    by (cases "isWhite (board chess fr fc)"; cases "fc = tc"; cases "fr = 1"; cases "fr = 6")
       (auto simp: pawnMove_def pawnReach_def Let_def)
qed

lemma knightMove_pure: "knightMove chess fr fc tr tc = Some (knightReach fr fc tr tc)"
  by (simp add: knightMove_def knightReach_def Let_def)

lemma rookMove_pure:
  assumes "inBounds fr fc" "inBounds tr tc"
  shows "rookMove chess fr fc tr tc = Some (rookReach (board chess) fr fc tr tc)"
proof (cases "fr \<noteq> tr \<and> fc \<noteq> tc")
  case True
  then show ?thesis by (simp add: rookMove_def rookReach_def)
next
  case False
  then have "aligned fr fc tr tc" by (auto simp: aligned_def)
  from pathClear_aligned[OF assms this] False
  show ?thesis by (auto simp add: rookMove_def rookReach_def)
qed

lemma bishopMove_pure:
  assumes "inBounds fr fc" "inBounds tr tc"
  shows "bishopMove chess fr fc tr tc = Some (bishopReach (board chess) fr fc tr tc)"
proof (cases "\<bar>fr - tr\<bar> \<noteq> \<bar>fc - tc\<bar>")
  case True
  then show ?thesis by (simp add: bishopMove_def bishopReach_def)
next
  case False
  then have "aligned fr fc tr tc" by (auto simp: aligned_def)
  from pathClear_aligned[OF assms this] False
  show ?thesis by (auto simp add: bishopMove_def bishopReach_def)
qed

lemma queenMove_pure:
  "inBounds fr fc \<Longrightarrow> inBounds tr tc \<Longrightarrow>
   queenMove chess fr fc tr tc
   = Some (rookReach (board chess) fr fc tr tc \<or> bishopReach (board chess) fr fc tr tc)"
  by (simp add: queenMove_def rookMove_pure bishopMove_pure)

lemma canPieceAttackSquare_pure:
  "inBounds fr fc \<Longrightarrow>
   canPieceAttackSquare chess fr fc tr tc = Some (attacks (board chess) fr fc tr tc)"
  by (simp add: canPieceAttackSquare_def attacks_def boardAt_Some pawnMove_pure
        knightMove_pure bishopMove_pure rookMove_pure queenMove_pure kingStep_def
      split: PieceType.splits)

lemma ofColor_EMPTY [simp]: "\<not> ofColor w EMPTY"
  by (simp add: ofColor_def)

lemma isSquareAttacked_loop_pure:
  "\<forall>(fr, fc) \<in> set sqs. inBounds fr fc \<Longrightarrow>
   isSquareAttacked_loop chess r c byWhite sqs
   = Some (\<exists>(fr, fc) \<in> set sqs. ofColor byWhite (board chess fr fc)
                                 \<and> attacks (board chess) fr fc r c)"
proof (induction sqs)
  case Nil
  show ?case by simp
next
  case (Cons sq sqs)
  obtain fr fc where sq: "sq = (fr, fc)" by (cases sq)
  have inb: "inBounds fr fc" using Cons.prems sq by simp
  define rest where "rest = (\<exists>(fr, fc) \<in> set sqs. ofColor byWhite (board chess fr fc)
                                 \<and> attacks (board chess) fr fc r c)"
  have ih: "isSquareAttacked_loop chess r c byWhite sqs = Some rest"
    using Cons by (simp add: rest_def)
  define p where "p = board chess fr fc"
  have wb: "isWhite p \<Longrightarrow> \<not> isBlack p" by (cases p) auto
  have bw: "p \<noteq> EMPTY \<Longrightarrow> \<not> isBlack p \<Longrightarrow> isWhite p" by (cases p) auto
  have lhs: "isSquareAttacked_loop chess r c byWhite (sq # sqs)
             = Some ((ofColor byWhite p \<and> attacks (board chess) fr fc r c) \<or> rest)"
  proof (cases "ofColor byWhite p")
    case False
    then show ?thesis
      using wb bw ih by (cases byWhite)
        (simp_all add: sq boardAt_Some[OF inb] ofColor_def p_def[symmetric])
  next
    case True
    then have "p \<noteq> EMPTY" by auto
    with True show ?thesis
      using wb bw ih by (cases byWhite)
        (simp_all add: sq boardAt_Some[OF inb] ofColor_def p_def[symmetric]
           canPieceAttackSquare_pure[OF inb])
  qed
  show ?case unfolding lhs by (simp add: sq rest_def p_def)
qed

lemma isSquareAttacked_pure:
  "isSquareAttacked chess r c byWhite = Some (attacked (board chess) r c byWhite)"
  unfolding isSquareAttacked_def attacked_def
  by (rule isSquareAttacked_loop_pure) (simp add: set_squares)

lemma isKingInCheck_loop_pure:
  "\<forall>(r, c) \<in> set sqs. inBounds r c \<Longrightarrow>
   isKingInCheck_loop chess white sqs
   = Some (case find (\<lambda>(r, c). board chess r c = kingOf white) sqs of
             None \<Rightarrow> False
           | Some (r, c) \<Rightarrow> attacked (board chess) r c (\<not> white))"
proof (induction sqs)
  case Nil
  show ?case by simp
next
  case (Cons sq sqs)
  obtain r c where sq: "sq = (r, c)" by (cases sq)
  have inb: "inBounds r c" using Cons.prems sq by simp
  show ?case
    unfolding sq using Cons
    by (auto simp: boardAt_Some[OF inb] isSquareAttacked_pure kingOf_def)
qed

lemma isKingInCheck_pure: "isKingInCheck chess white = Some (inCheck (board chess) white)"
  unfolding isKingInCheck_def inCheck_def
  by (rule isKingInCheck_loop_pure) (simp add: set_squares)

section \<open>Running the functions on the example positions\<close>

lemma squares_eq:
  "squares =
     [(0, 0), (0, 1), (0, 2), (0, 3), (0, 4), (0, 5), (0, 6), (0, 7),
      (1, 0), (1, 1), (1, 2), (1, 3), (1, 4), (1, 5), (1, 6), (1, 7),
      (2, 0), (2, 1), (2, 2), (2, 3), (2, 4), (2, 5), (2, 6), (2, 7),
      (3, 0), (3, 1), (3, 2), (3, 3), (3, 4), (3, 5), (3, 6), (3, 7),
      (4, 0), (4, 1), (4, 2), (4, 3), (4, 4), (4, 5), (4, 6), (4, 7),
      (5, 0), (5, 1), (5, 2), (5, 3), (5, 4), (5, 5), (5, 6), (5, 7),
      (6, 0), (6, 1), (6, 2), (6, 3), (6, 4), (6, 5), (6, 6), (6, 7),
      (7, 0), (7, 1), (7, 2), (7, 3), (7, 4), (7, 5), (7, 6), (7, 7)]"
  by (simp add: squares_def upto_0_7)

lemma init_board:
  "board initChessState r c =
     (if r = 0 then
        (if c = 0 then WHITE_ROOK else if c = 1 then WHITE_KNIGHT
         else if c = 2 then WHITE_BISHOP else if c = 3 then WHITE_QUEEN
         else if c = 4 then WHITE_KING else if c = 5 then WHITE_BISHOP
         else if c = 6 then WHITE_KNIGHT else if c = 7 then WHITE_ROOK else EMPTY)
      else if r = 7 then
        (if c = 0 then BLACK_ROOK else if c = 1 then BLACK_KNIGHT
         else if c = 2 then BLACK_BISHOP else if c = 3 then BLACK_QUEEN
         else if c = 4 then BLACK_KING else if c = 5 then BLACK_BISHOP
         else if c = 6 then BLACK_KNIGHT else if c = 7 then BLACK_ROOK else EMPTY)
      else if r = 1 then (if 0 \<le> c \<and> c \<le> 7 then WHITE_PAWN else EMPTY)
      else if r = 6 then (if 0 \<le> c \<and> c \<le> 7 then BLACK_PAWN else EMPTY)
      else EMPTY)"
  by (simp add: initChessState_def Let_def upto_0_7)

lemma init_fields:
  "whiteToMove initChessState = True"
  "selectedRow initChessState = - 1"
  "selectedCol initChessState = - 1"
  "hasCastledWhite initChessState = (False, False)"
  "hasCastledBlack initChessState = (False, False)"
  "enPassantCol initChessState = - 1"
  by (simp_all add: initChessState_def Let_def)

lemma lonePawn_board:
  "board lonePawn r c =
     (if r = 0 \<and> c = 0 then WHITE_KING else if r = 1 \<and> c = 4 then WHITE_PAWN
      else if r = 7 \<and> c = 7 then BLACK_KING else EMPTY)"
  by (simp add: lonePawn_def emptyBoard_def)

lemma beforePush_board:
  "board beforePush r c =
     (if r = 0 \<and> c = 4 then WHITE_KING else if r = 4 \<and> c = 4 then WHITE_PAWN
      else if r = 6 \<and> c = 3 then BLACK_PAWN else if r = 7 \<and> c = 4 then BLACK_KING
      else EMPTY)"
  by (simp add: beforePush_def emptyBoard_def)

lemma beforePush_fields:
  "whiteToMove beforePush = False"
  "hasCastledWhite beforePush = (False, False)"
  "hasCastledBlack beforePush = (False, False)"
  "enPassantCol beforePush = - 1"
  by (simp_all add: beforePush_def init_fields)

lemma backRankMate_board:
  "board backRankMate r c =
     (if r = 0 \<and> c = 0 then WHITE_KING else if r = 6 \<and> c = 6 then BLACK_PAWN
      else if r = 6 \<and> c = 7 then BLACK_PAWN else if r = 7 \<and> c = 0 then WHITE_ROOK
      else if r = 7 \<and> c = 7 then BLACK_KING else EMPTY)"
  by (simp add: backRankMate_def emptyBoard_def)

lemma backRankMate_fields:
  "whiteToMove backRankMate = False"
  "hasCastledWhite backRankMate = (False, False)"
  "hasCastledBlack backRankMate = (False, False)"
  by (simp_all add: backRankMate_def init_fields)

lemma queenStalemate_board:
  "board queenStalemate r c =
     (if r = 5 \<and> c = 6 then WHITE_QUEEN else if r = 6 \<and> c = 5 then WHITE_KING
      else if r = 7 \<and> c = 7 then BLACK_KING else EMPTY)"
  by (simp add: queenStalemate_def emptyBoard_def)

lemma queenStalemate_fields:
  "whiteToMove queenStalemate = False"
  "hasCastledWhite queenStalemate = (False, False)"
  "hasCastledBlack queenStalemate = (False, False)"
  by (simp_all add: queenStalemate_def init_fields)

lemma pawnGuardsTransit_board:
  "board pawnGuardsTransit r c =
     (if r = 0 \<and> c = 4 then WHITE_KING else if r = 0 \<and> c = 7 then WHITE_ROOK
      else if r = 1 \<and> c = 4 then BLACK_PAWN else if r = 7 \<and> c = 4 then BLACK_KING
      else EMPTY)"
  by (simp add: pawnGuardsTransit_def emptyBoard_def)

lemma pawnGuardsTransit_fields:
  "whiteToMove pawnGuardsTransit = True"
  "hasCastledWhite pawnGuardsTransit = (False, False)"
  "hasCastledBlack pawnGuardsTransit = (False, False)"
  by (simp_all add: pawnGuardsTransit_def init_fields)

lemmas run_defs = squares_eq inBounds_def boardAt_def boardSet_def sameColor_def
  pathClear_loop.simps pathClear_def knightMove_def rookMove_def bishopMove_def queenMove_def
  pawnMove_def canPieceAttackSquare_def isSquareAttacked_def isKingInCheck_def
  canCastle_between.simps canCastle_transit.simps canCastle_def kingMove_def isLegalMove_def
  getAllMoves_def Let_def

lemma getAllMoves_init: "getAllMoves initChessState = Some openingMoves"
  by (simp add: run_defs init_board init_fields openingMoves_def quiet_def)

lemma lonePawn_front: "isSquareAttacked lonePawn 2 4 True = Some True"
  by (simp add: run_defs lonePawn_board)

lemma lonePawn_diagonal: "isSquareAttacked lonePawn 2 3 True = Some False"
  by (simp add: run_defs lonePawn_board)

lemma getAllMoves_backRankMate: "getAllMoves backRankMate = Some []"
  by (simp add: run_defs backRankMate_board backRankMate_fields)

lemma check_backRankMate: "isKingInCheck backRankMate False = Some True"
  by (simp add: run_defs backRankMate_board backRankMate_fields)

lemma getAllMoves_queenStalemate: "getAllMoves queenStalemate = Some []"
  by (simp add: run_defs queenStalemate_board queenStalemate_fields)

lemma check_queenStalemate: "isKingInCheck queenStalemate False = Some False"
  by (simp add: run_defs queenStalemate_board queenStalemate_fields)

lemma canCastle_pawnGuardsTransit: "canCastle pawnGuardsTransit 0 4 0 6 = Some True"
  by (simp add: run_defs pawnGuardsTransit_board pawnGuardsTransit_fields)


section \<open>Null undo record, starting position, terminal nodes of the search\<close>

lemma evaluateMaterial_loop_total:
  "\<forall>(r, c) \<in> set sqs. inBounds r c \<Longrightarrow> \<exists>v. evaluateMaterial_loop chess wp val sqs = Some v"
proof (induction sqs arbitrary: val)
  case Nil
  show ?case by simp
next
  case (Cons sq sqs)
  obtain r c where sq: "sq = (r, c)" by (cases sq)
  have inb: "inBounds r c" using Cons.prems sq by simp
  have rest: "\<exists>v. evaluateMaterial_loop chess wp val' sqs = Some v" for val'
    using Cons by simp
  show ?case
    unfolding sq using rest by (simp add: boardAt_Some[OF inb] Let_def)
qed

lemma evaluateMaterial_total: "\<exists>v. evaluateMaterial chess wp = Some v"
  unfolding evaluateMaterial_def
  by (rule evaluateMaterial_loop_total) (simp add: set_squares)

text \<open>
  C10. \<^verbatim>\<open>unmakeMove\<close> called with a null undo record returns at once: the position it
  leaves is the position it was given, whatever the position and the move are.
\<close>

theorem unmakeMove_null_undo: "unmakeMove chess move None = Some chess"
  by (simp add: unmakeMove_def)

text \<open>
  C6. From the position built by \<^verbatim>\<open>initChessState\<close> the generator returns exactly 20
  moves for White, who is to move: 16 moves of a pawn one or two squares straight ahead
  and 4 moves of a knight.
\<close>

theorem getAllMoves_initial_position:
  "whiteToMove initChessState
   \<and> getAllMoves initChessState = Some openingMoves
   \<and> length openingMoves = 20
   \<and> length [m \<leftarrow> openingMoves.
        boardAt initChessState (fromRow m) (fromCol m) = Some WHITE_PAWN
        \<and> toCol m = fromCol m
        \<and> (toRow m = fromRow m + 1 \<or> toRow m = fromRow m + 2)] = 16
   \<and> length [m \<leftarrow> openingMoves.
        boardAt initChessState (fromRow m) (fromCol m) = Some WHITE_KNIGHT] = 4"
  by (simp add: getAllMoves_init init_fields)
     (simp add: openingMoves_def quiet_def boardAt_def inBounds_def init_board)

text \<open>
  C3, on the position \<open>lonePawn\<close> (White: Ka1 and a pawn on e2): the square e3, onto
  which the pawn can only advance, is reported as attacked by White, and the square d3,
  one diagonal step ahead of the pawn, is reported as not attacked.
\<close>

theorem isSquareAttacked_pawn_forward:
  "boardAt lonePawn 1 4 = Some WHITE_PAWN
   \<and> isSquareAttacked lonePawn 2 4 True = Some True
   \<and> isSquareAttacked lonePawn 2 3 True = Some False"
  by (simp add: lonePawn_front lonePawn_diagonal) (simp add: boardAt_def inBounds_def lonePawn_board)

text \<open>
  C7, on the starting position with no square selected (\<^verbatim>\<open>selectedRow\<close> and
  \<^verbatim>\<open>selectedCol\<close> are -1), as \<^verbatim>\<open>renderChessBoard\<close> calls it: the destination a1 passes
  the bounds check, and the read of the from-square that follows is outside the board.
\<close>

theorem isLegalMove_no_selection:
  "selectedRow initChessState = - 1 \<and> selectedCol initChessState = - 1
   \<and> inBounds 0 0 \<and> \<not> inBounds (- 1) (- 1)
   \<and> boardAt initChessState (- 1) (- 1) = None
   \<and> isLegalMove initChessState (selectedRow initChessState) (selectedCol initChessState) 0 0
       = None"
  by (simp add: init_fields isLegalMove_def boardAt_def inBounds_def)

text \<open>
  C4, on the position \<open>beforePush\<close>: after the double push d7-d5 the en-passant file is
  d (3) and the white pawn on e5 stands beside the pushed pawn, but the capture e5xd6
  is refused by \<^verbatim>\<open>isLegalMove\<close>, and \<^verbatim>\<open>getAllMoves\<close> returns no move onto d6 and no
  move flagged as en passant.
\<close>

theorem en_passant_not_generated:
  "\<exists>P ms. makeMove beforePush pushMove None = Some (P, None)
     \<and> enPassantCol P = 3 \<and> whiteToMove P
     \<and> boardAt P 4 3 = Some BLACK_PAWN \<and> boardAt P 4 4 = Some WHITE_PAWN
     \<and> boardAt P 5 3 = Some EMPTY
     \<and> isLegalMove P 4 4 5 3 = Some False
     \<and> getAllMoves P = Some ms
     \<and> [m \<leftarrow> ms. isEnPassant m \<or> (toRow m = 5 \<and> toCol m = 3)] = []"
  by (simp add: makeMove_def pushMove_def run_defs beforePush_board beforePush_fields)

text \<open>
  What \<^verbatim>\<open>minimax\<close> returns at its terminal nodes. At depth 0 it is the value of
  \<^verbatim>\<open>evaluateMaterial\<close> for the same flag. At a depth of at least 1 and with no move
  generated it is 0 if the side to move is not in check; if it is in check, it is -10000
  when the flag is set and 10000 when it is not, whichever side is to move. In each case
  the position is left as it was.
\<close>

lemma minimax_terminal:
  "(\<exists>v. evaluateMaterial chess b = Some v \<and> minimax u chess 0 b = Some (v, chess))
   \<and> (getAllMoves chess = Some [] \<longrightarrow>
        (\<exists>chk. isKingInCheck chess (whiteToMove chess) = Some chk
           \<and> minimax u chess (Suc depth) b
               = Some (if chk then (if b then - 10000 else 10000) else 0, chess)))"
  using evaluateMaterial_total[of chess b]
  by (auto simp: isKingInCheck_pure)

lemma minimax_terminal_examples:
  "getAllMoves backRankMate = Some []
   \<and> isKingInCheck backRankMate (whiteToMove backRankMate) = Some True
   \<and> minimax blankUndo backRankMate (Suc 0) True = Some (- 10000, backRankMate)
   \<and> minimax blankUndo backRankMate (Suc 0) False = Some (10000, backRankMate)
   \<and> getAllMoves queenStalemate = Some []
   \<and> isKingInCheck queenStalemate (whiteToMove queenStalemate) = Some False
   \<and> minimax blankUndo queenStalemate (Suc 0) True = Some (0, queenStalemate)"
proof -
  have mate: "isKingInCheck backRankMate (whiteToMove backRankMate) = Some True"
    by (simp add: backRankMate_fields check_backRankMate)
  have stale: "isKingInCheck queenStalemate (whiteToMove queenStalemate) = Some False"
    by (simp add: queenStalemate_fields check_queenStalemate)
  have "minimax blankUndo backRankMate (Suc 0) True = Some (- 10000, backRankMate)"
    using minimax_terminal[of backRankMate True blankUndo 0] getAllMoves_backRankMate mate
    by (auto simp del: minimax.simps)
  moreover have "minimax blankUndo backRankMate (Suc 0) False = Some (10000, backRankMate)"
    using minimax_terminal[of backRankMate False blankUndo 0] getAllMoves_backRankMate mate
    by (auto simp del: minimax.simps)
  moreover have "minimax blankUndo queenStalemate (Suc 0) True = Some (0, queenStalemate)"
    using minimax_terminal[of queenStalemate True blankUndo 0] getAllMoves_queenStalemate stale
    by (auto simp del: minimax.simps)
  ultimately show ?thesis
    using getAllMoves_backRankMate getAllMoves_queenStalemate mate stale by simp
qed



section \<open>Castling\<close>

lemma canCastle_between_kingside:
  assumes "0 \<le> fr" "fr < 8"
  shows "canCastle_between chess fr 1 7 5
         = Some (board chess fr 5 = EMPTY \<and> board chess fr 6 = EMPTY)"
  using assms
  by (simp add: canCastle_between.simps[of _ _ _ _ 5] canCastle_between.simps[of _ _ _ _ 6]
        canCastle_between.simps[of _ _ _ _ 7] boardAt_def inBounds_def)

lemma canCastle_between_queenside:
  assumes "0 \<le> fr" "fr < 8"
  shows "canCastle_between chess fr (- 1) 0 3
         = Some (board chess fr 3 = EMPTY \<and> board chess fr 2 = EMPTY \<and> board chess fr 1 = EMPTY)"
  using assms
  by (simp add: canCastle_between.simps[of _ _ _ _ 3] canCastle_between.simps[of _ _ _ _ 2]
        canCastle_between.simps[of _ _ _ _ 1] canCastle_between.simps[of _ _ _ _ 0]
        boardAt_def inBounds_def)

lemma canCastle_transit_kingside:
  "canCastle_transit chess fr 1 7 white 4
   = Some (\<not> attacked (board chess) fr 4 (\<not> white) \<and> \<not> attacked (board chess) fr 5 (\<not> white)
           \<and> \<not> attacked (board chess) fr 6 (\<not> white))"
  by (simp add: canCastle_transit.simps[of _ _ _ _ _ 4] canCastle_transit.simps[of _ _ _ _ _ 5]
        canCastle_transit.simps[of _ _ _ _ _ 6] canCastle_transit.simps[of _ _ _ _ _ 7]
        isSquareAttacked_pure)

lemma canCastle_transit_queenside:
  "canCastle_transit chess fr (- 1) 1 white 4
   = Some (\<not> attacked (board chess) fr 4 (\<not> white) \<and> \<not> attacked (board chess) fr 3 (\<not> white)
           \<and> \<not> attacked (board chess) fr 2 (\<not> white))"
  by (simp add: canCastle_transit.simps[of _ _ _ _ _ 4] canCastle_transit.simps[of _ _ _ _ _ 3]
        canCastle_transit.simps[of _ _ _ _ _ 2] canCastle_transit.simps[of _ _ _ _ _ 1]
        isSquareAttacked_pure)

lemma canCastle_pure:
  assumes "inBounds fr fc" "tc = 6 \<or> tc = 2"
  shows "canCastle chess fr fc tr tc = Some (fc = 4 \<and> castleOK chess fr tc)"
proof (cases "fc = 4")
  case False
  then show ?thesis
    by (simp add: canCastle_def boardAt_Some[OF assms(1)] Let_def)
next
  case True
  have fr: "0 \<le> fr" "fr < 8" using assms(1) by (simp_all add: inBounds_def)
  have rd: "boardAt chess fr c = Some (board chess fr c)" if "0 \<le> c" "c < 8" for c
    using fr that by (simp add: boardAt_def inBounds_def)
  note reads = rd[of 0] rd[of 1] rd[of 2] rd[of 3] rd[of 4] rd[of 5] rd[of 6] rd[of 7]
  show ?thesis
  proof (cases "tc = 6")
    case six: True
    show ?thesis
      unfolding True six
      using reads canCastle_between_kingside[OF fr, of chess]
        canCastle_transit_kingside[of chess fr]
      by (cases "isWhite (board chess fr 4)"; cases "fr = 0"; cases "fr = 7")
         (auto simp add: canCastle_def castleOK_def rightsLost_def Let_def isKingInCheck_pure)
  next
    case False
    then have two: "tc = 2" using assms(2) by simp
    show ?thesis
      unfolding True two
      using reads canCastle_between_queenside[OF fr, of chess]
        canCastle_transit_queenside[of chess fr]
      by (cases "isWhite (board chess fr 4)"; cases "fr = 0"; cases "fr = 7")
         (auto simp add: canCastle_def castleOK_def rightsLost_def Let_def isKingInCheck_pure)
  qed
qed

lemma castleReady_board:
  "board castleReady r c =
     (if r = 0 \<and> c = 4 then WHITE_KING else if r = 0 \<and> c = 7 then WHITE_ROOK
      else if r = 7 \<and> c = 4 then BLACK_KING else EMPTY)"
  by (simp add: castleReady_def emptyBoard_def)

lemma castleReady_fields:
  "whiteToMove castleReady = True"
  "hasCastledWhite castleReady = (False, False)"
  "hasCastledBlack castleReady = (False, False)"
  by (simp_all add: castleReady_def init_fields)

lemma canCastle_castleReady: "canCastle castleReady 0 4 0 6 = Some True"
  by (simp add: run_defs castleReady_board castleReady_fields)

lemma check_castleReady_rook_e5:
  "isKingInCheck (put castleReady 4 4 BLACK_ROOK) True = Some True"
  by (simp add: run_defs put_def castleReady_board)

lemma attacked_castleReady_rook_f8:
  "isSquareAttacked (put castleReady 7 5 BLACK_ROOK) 0 5 False = Some True"
  by (simp add: run_defs put_def castleReady_board)

text \<open>
  What holds of the tests of \<^verbatim>\<open>canCastle\<close>. Let the king of a side stand on its home
  square (e1 for White, e8 for Black) and let the destination column be 6 (king side) or
  2 (queen side). \<^verbatim>\<open>canCastle\<close> returns false as soon as one of these holds: the flag of
  that side and wing is set; the rook of that side is not on its home square; a square
  strictly between king and rook is not empty; \<^verbatim>\<open>isKingInCheck\<close> reports the side in
  check; \<^verbatim>\<open>isSquareAttacked\<close> reports one of the squares from the king's square to its
  destination as attacked by the other side.
\<close>

lemma canCastle_rejects:
  assumes "fr = (if white then 0 else 7)"
    and "boardAt chess fr 4 = Some (if white then WHITE_KING else BLACK_KING)"
    and "tc = 6 \<or> tc = 2"
    and "(if white
          then (if tc = 6 then fst (hasCastledWhite chess) else snd (hasCastledWhite chess))
          else (if tc = 6 then fst (hasCastledBlack chess) else snd (hasCastledBlack chess)))
       \<or> boardAt chess fr (if tc = 6 then 7 else 0)
            \<noteq> Some (if white then WHITE_ROOK else BLACK_ROOK)
       \<or> (\<exists>c. (if tc = 6 then 4 < c \<and> c < 7 else 0 < c \<and> c < 4)
               \<and> boardAt chess fr c \<noteq> Some EMPTY)
       \<or> isKingInCheck chess white = Some True
       \<or> (\<exists>c. (if tc = 6 then 4 \<le> c \<and> c \<le> 6 else 2 \<le> c \<and> c \<le> 4)
               \<and> isSquareAttacked chess fr c (\<not> white) = Some True)"
  shows "canCastle chess fr 4 tr tc = Some False"
proof -
  have inb: "inBounds fr 4" using assms(1) by (simp add: inBounds_def)
  have king: "board chess fr 4 = (if white then WHITE_KING else BLACK_KING)"
    using assms(2) by (simp add: boardAt_Some[OF inb])
  then have w: "isWhite (board chess fr 4) = white" by simp
  have rd: "boardAt chess fr c = Some (board chess fr c)" if "0 \<le> c" "c < 8" for c
    using inb that by (simp add: boardAt_def inBounds_def)
  have five_six: "c = 5 \<or> c = 6" if "4 < c" "c < 7" for c :: int using that by arith
  have one_three: "c = 1 \<or> c = 2 \<or> c = 3" if "0 < c" "c < 4" for c :: int using that by arith
  have four_six: "c = 4 \<or> c = 5 \<or> c = 6" if "4 \<le> c" "c \<le> 6" for c :: int using that by arith
  have two_four: "c = 2 \<or> c = 3 \<or> c = 4" if "2 \<le> c" "c \<le> 4" for c :: int using that by arith
  have "\<not> castleOK chess fr tc"
  proof
    assume ok: "castleOK chess fr tc"
    have flag: "\<not> rightsLost chess white tc"
      and rook: "board chess fr (if tc = 6 then 7 else 0)
                 = (if white then WHITE_ROOK else BLACK_ROOK)"
      and gap: "if tc = 6 then board chess fr 5 = EMPTY \<and> board chess fr 6 = EMPTY
                else board chess fr 3 = EMPTY \<and> board chess fr 2 = EMPTY
                     \<and> board chess fr 1 = EMPTY"
      and safe: "\<not> inCheck (board chess) white"
      and way: "if tc = 6
                then \<not> attacked (board chess) fr 4 (\<not> white)
                     \<and> \<not> attacked (board chess) fr 5 (\<not> white)
                     \<and> \<not> attacked (board chess) fr 6 (\<not> white)
                else \<not> attacked (board chess) fr 4 (\<not> white)
                     \<and> \<not> attacked (board chess) fr 3 (\<not> white)
                     \<and> \<not> attacked (board chess) fr 2 (\<not> white)"
      using ok unfolding castleOK_def Let_def w by blast+
    have between: "boardAt chess fr c = Some EMPTY"
      if "if tc = 6 then 4 < c \<and> c < 7 else 0 < c \<and> c < 4" for c
    proof (cases "tc = 6")
      case True
      with that have "c = 5 \<or> c = 6" using five_six by simp
      with gap True show ?thesis by (auto simp: rd)
    next
      case False
      with that have "c = 1 \<or> c = 2 \<or> c = 3" using one_three by simp
      with gap False show ?thesis by (auto simp: rd)
    qed
    have transit: "isSquareAttacked chess fr c (\<not> white) = Some False"
      if "if tc = 6 then 4 \<le> c \<and> c \<le> 6 else 2 \<le> c \<and> c \<le> 4" for c
    proof (cases "tc = 6")
      case True
      with that have "c = 4 \<or> c = 5 \<or> c = 6" using four_six by simp
      with way True show ?thesis by (auto simp: isSquareAttacked_pure)
    next
      case False
      with that have "c = 2 \<or> c = 3 \<or> c = 4" using two_four by simp
      with way False show ?thesis by (auto simp: isSquareAttacked_pure)
    qed
    have rook': "boardAt chess fr (if tc = 6 then 7 else 0)
                 = Some (if white then WHITE_ROOK else BLACK_ROOK)"
      using rook by (simp add: rd)
    from assms(4) show False
      using flag rook' between transit safe
      by (auto simp: rightsLost_def isKingInCheck_pure)
  qed
  then show ?thesis by (simp add: canCastle_pure[OF inb assms(3)])
qed

lemma canCastle_rejects_examples:
  "canCastle castleReady 0 4 0 6 = Some True
   \<and> canCastle (castleReady\<lparr>hasCastledWhite := (True, False)\<rparr>) 0 4 0 6 = Some False
   \<and> canCastle (put castleReady 0 7 EMPTY) 0 4 0 6 = Some False
   \<and> canCastle (put castleReady 0 5 WHITE_BISHOP) 0 4 0 6 = Some False
   \<and> isKingInCheck (put castleReady 4 4 BLACK_ROOK) True = Some True
   \<and> canCastle (put castleReady 4 4 BLACK_ROOK) 0 4 0 6 = Some False
   \<and> isSquareAttacked (put castleReady 7 5 BLACK_ROOK) 0 5 False = Some True
   \<and> canCastle (put castleReady 7 5 BLACK_ROOK) 0 4 0 6 = Some False"
proof -
  have king0: "boardAt (castleReady\<lparr>hasCastledWhite := (True, False)\<rparr>) 0 4
               = Some (if True then WHITE_KING else BLACK_KING)"
    by (simp add: boardAt_def inBounds_def castleReady_board)
  have king: "boardAt (put castleReady r c p) 0 4 = Some (if True then WHITE_KING else BLACK_KING)"
    if "(r, c) \<noteq> (0, 4)" for r c p
    using that by (auto simp: boardAt_def inBounds_def put_def castleReady_board)
  have home: "(0::int) = (if True then 0 else 7)" and wing: "(6::int) = 6 \<or> (6::int) = 2"
    by simp_all
  have flag: "canCastle (castleReady\<lparr>hasCastledWhite := (True, False)\<rparr>) 0 4 0 6 = Some False"
    by (rule canCastle_rejects[OF home king0 wing]) simp
  have rook: "canCastle (put castleReady 0 7 EMPTY) 0 4 0 6 = Some False"
    by (rule canCastle_rejects[OF home king wing])
       (simp_all add: boardAt_def inBounds_def put_def)
  have blocked: "canCastle (put castleReady 0 5 WHITE_BISHOP) 0 4 0 6 = Some False"
    by (rule canCastle_rejects[OF home king wing], simp, rule disjI2, rule disjI2, rule disjI1,
        rule exI[of _ 5], simp add: boardAt_def inBounds_def put_def)
  have chk: "canCastle (put castleReady 4 4 BLACK_ROOK) 0 4 0 6 = Some False"
    by (rule canCastle_rejects[OF home king wing])
       (simp_all add: check_castleReady_rook_e5)
  have transit: "canCastle (put castleReady 7 5 BLACK_ROOK) 0 4 0 6 = Some False"
    by (rule canCastle_rejects[OF home king wing], simp, (rule disjI2)+,
        rule exI[of _ 5], simp add: attacked_castleReady_rook_f8)
  show ?thesis
    using flag rook blocked chk transit canCastle_castleReady check_castleReady_rook_e5
      attacked_castleReady_rook_f8
    by simp
qed

lemma pawnGuardsTransit_f1: "isSquareAttacked pawnGuardsTransit 0 5 False = Some False"
  by (simp add: run_defs pawnGuardsTransit_board)

lemma pawnGuardsTransit_castles: "isLegalMove pawnGuardsTransit 0 4 0 6 = Some True"
  by (simp add: run_defs pawnGuardsTransit_board pawnGuardsTransit_fields)

text \<open>
  C5, on the position \<open>pawnGuardsTransit\<close>: the white king is on e1 with the rook on
  h1, no flag is set and f1 and g1 are empty; the black pawn on e2 stands one diagonal
  step from f1 in its capture direction, so the square f1, which the king crosses, is
  attacked by Black. \<^verbatim>\<open>isSquareAttacked\<close> answers false for f1, \<^verbatim>\<open>canCastle\<close> answers
  true, and \<^verbatim>\<open>isLegalMove\<close> accepts the castling move e1-g1.
\<close>

theorem canCastle_through_guarded_square:
  "boardAt pawnGuardsTransit 0 4 = Some WHITE_KING
   \<and> boardAt pawnGuardsTransit 0 7 = Some WHITE_ROOK
   \<and> boardAt pawnGuardsTransit 0 5 = Some EMPTY
   \<and> boardAt pawnGuardsTransit 0 6 = Some EMPTY
   \<and> hasCastledWhite pawnGuardsTransit = (False, False)
   \<and> boardAt pawnGuardsTransit 1 4 = Some BLACK_PAWN
   \<and> isSquareAttacked pawnGuardsTransit 0 5 False = Some False
   \<and> canCastle pawnGuardsTransit 0 4 0 6 = Some True
   \<and> isLegalMove pawnGuardsTransit 0 4 0 6 = Some True"
  by (simp add: canCastle_pawnGuardsTransit pawnGuardsTransit_f1 pawnGuardsTransit_castles
        pawnGuardsTransit_fields)
     (simp add: boardAt_def inBounds_def pawnGuardsTransit_board)

section \<open>Legal moves and the generator\<close>

lemma kingMove_pure:
  assumes "inBounds fr fc"
  shows "kingMove chess fr fc tr tc
         = Some (kingStep fr fc tr tc
                 \<or> (fr = tr \<and> (tc = 6 \<or> tc = 2) \<and> fc = 4 \<and> castleOK chess fr tc))"
proof (cases "kingStep fr fc tr tc")
  case True
  then show ?thesis by (simp add: kingMove_def kingStep_def)
next
  case False
  show ?thesis
  proof (cases "fr = tr \<and> (tc = 6 \<or> tc = 2)")
    case True
    then have wing: "tc = 6 \<or> tc = 2" by simp
    from False True canCastle_pure[OF assms wing, of chess tr] show ?thesis
      by (simp add: kingMove_def kingStep_def)
  next
    case no: False
    with False show ?thesis by (auto simp: kingMove_def kingStep_def)
  qed
qed

lemma sameColor_self: "p \<noteq> EMPTY \<Longrightarrow> sameColor p p"
  by (cases p) (simp_all add: sameColor_def)

lemma isLegalMove_pure:
  assumes "inBounds fr fc"
  shows "isLegalMove chess fr fc tr tc = Some (legal chess fr fc tr tc)"
proof (cases "inBounds tr tc \<and> board chess fr fc \<noteq> EMPTY
              \<and> \<not> sameColor (board chess fr fc) (board chess tr tc)")
  case False
  then show ?thesis
    by (auto simp: isLegalMove_def legal_def boardAt_Some[OF assms] boardAt_Some Let_def)
next
  case True
  define b where "b = board chess"
  define p where "p = b fr fc"
  have inb: "inBounds tr tc" and ne: "p \<noteq> EMPTY" and sc: "\<not> sameColor p (b tr tc)"
    using True by (simp_all add: p_def b_def)
  have diff: "fr \<noteq> tr \<or> fc \<noteq> tc" using ne sc sameColor_self[of p] by (auto simp: p_def)
  have rd: "boardAt chess fr fc = Some p" "boardAt chess tr tc = Some (b tr tc)"
    using assms inb by (simp_all add: boardAt_Some p_def b_def)
  define copy where "copy = chess\<lparr>board := movePiece b fr fc tr tc\<rparr>"
  have sim: "boardSet chess tr tc p \<bind> (\<lambda>copy1. boardSet copy1 fr fc EMPTY \<bind> f) = f copy" for f :: "ChessState \<Rightarrow> bool option"
    using assms inb
    by (simp add: boardSet_def copy_def movePiece_def p_def b_def Let_def)
  have landed: "boardAt copy tr tc = Some p"
    using inb diff by (auto simp: boardAt_def copy_def movePiece_def p_def Let_def)
  have bc: "board copy = movePiece b fr fc tr tc" by (simp add: copy_def)
  define ok where "ok = (attacks b fr fc tr tc
          \<or> (isKing p \<and> fr = tr \<and> (tc = 6 \<or> tc = 2) \<and> fc = 4 \<and> castleOK chess fr tc))"
  have dispatch: "(case p of
                     EMPTY \<Rightarrow> Some False
                   | WHITE_PAWN \<Rightarrow> pawnMove chess fr fc tr tc
                   | BLACK_PAWN \<Rightarrow> pawnMove chess fr fc tr tc
                   | WHITE_KNIGHT \<Rightarrow> knightMove chess fr fc tr tc
                   | BLACK_KNIGHT \<Rightarrow> knightMove chess fr fc tr tc
                   | WHITE_BISHOP \<Rightarrow> bishopMove chess fr fc tr tc
                   | BLACK_BISHOP \<Rightarrow> bishopMove chess fr fc tr tc
                   | WHITE_ROOK \<Rightarrow> rookMove chess fr fc tr tc
                   | BLACK_ROOK \<Rightarrow> rookMove chess fr fc tr tc
                   | WHITE_QUEEN \<Rightarrow> queenMove chess fr fc tr tc
                   | BLACK_QUEEN \<Rightarrow> queenMove chess fr fc tr tc
                   | WHITE_KING \<Rightarrow> kingMove chess fr fc tr tc
                   | BLACK_KING \<Rightarrow> kingMove chess fr fc tr tc) = Some ok"
    using inb
    by (cases p)
       (auto simp: ok_def attacks_def isKing_def p_def[symmetric] b_def[symmetric]
          pawnMove_pure[OF assms inb] knightMove_pure rookMove_pure[OF assms inb]
          bishopMove_pure[OF assms inb] queenMove_pure[OF assms inb] kingMove_pure[OF assms])
  have "isLegalMove chess fr fc tr tc
        = Some (ok \<and> \<not> inCheck (movePiece b fr fc tr tc) (isWhite p))"
    using inb ne sc
    by (simp add: isLegalMove_def rd dispatch sim landed isKingInCheck_pure bc)
  moreover have "legal chess fr fc tr tc
        = (ok \<and> \<not> inCheck (movePiece b fr fc tr tc) (isWhite p))"
    using inb ne sc
    by (simp add: legal_def Let_def ok_def b_def[symmetric] p_def[symmetric])
  ultimately show ?thesis by simp
qed

lemma legal_pawn_capture:
  assumes "legal chess r c r2 c2" "board chess r c = WHITE_PAWN \<or> board chess r c = BLACK_PAWN"
    "c \<noteq> c2"
  shows "board chess r2 c2 \<noteq> EMPTY"
  using assms by (auto simp: legal_def attacks_def pawnReach_def isKing_def Let_def)

lemma getAllMoves_inner_inv:
  assumes "inBounds r c" "p = board chess r c" "ofColor (whiteToMove chess) p"
    and "\<forall>(r2, c2) \<in> set sqs. inBounds r2 c2" "\<forall>m \<in> set acc. generated chess m"
  shows "\<exists>acc'. getAllMoves_inner chess r c p acc sqs = Some acc'
                \<and> (\<forall>m \<in> set acc'. generated chess m)"
  using assms(4,5)
proof (induction sqs arbitrary: acc)
  case Nil
  then show ?case by simp
next
  case (Cons sq sqs)
  obtain r2 c2 where sq: "sq = (r2, c2)" by (cases sq)
  have inb2: "inBounds r2 c2" and rest: "\<forall>(r2, c2) \<in> set sqs. inBounds r2 c2"
    using Cons.prems(1) sq by simp_all
  have ih: "\<exists>acc'. getAllMoves_inner chess r c p a sqs = Some acc'
                \<and> (\<forall>m \<in> set acc'. generated chess m)"
    if "\<forall>m \<in> set a. generated chess m" for a
    using Cons.IH[OF rest that] .
  show ?case
  proof (cases "legal chess r c r2 c2 \<and> \<not> int (length acc) \<ge> 256")
    case False
    then show ?thesis
      using ih[OF Cons.prems(2)]
      by (auto simp: sq isLegalMove_pure[OF assms(1)])
  next
    case True
    then have lg: "legal chess r c r2 c2" by simp
    define mv where "mv = \<lparr> fromRow = r, fromCol = c, toRow = r2, toCol = c2,
               captured = board chess r2 c2,
               isPromotion = ((p = WHITE_PAWN \<and> r2 = 7) \<or> (p = BLACK_PAWN \<and> r2 = 0)),
               isEnPassant = False,
               isCastling = (isKing p \<and> c = 4 \<and> \<bar>c2 - c\<bar> = 2) \<rparr>"
    have gen: "generated chess mv"
      using assms(1-3) lg by (simp add: generated_def mv_def Let_def)
    have noep: "\<not> ((p = WHITE_PAWN \<or> p = BLACK_PAWN) \<and> c \<noteq> c2 \<and> board chess r2 c2 = EMPTY)"
      using legal_pawn_capture[OF lg] assms(2) by auto
    have step: "getAllMoves_inner chess r c p acc (sq # sqs)
                = getAllMoves_inner chess r c p (acc @ [mv]) sqs"
      using True noep isLegalMove_pure[OF assms(1), of chess r2 c2] boardAt_Some[OF inb2, of chess]
      by (cases "p = WHITE_PAWN"; cases "p = BLACK_PAWN"; cases "c = c2"; cases "c = 4";
          cases "\<bar>c2 - c\<bar> = 2")
         (auto simp add: sq Let_def mv_def isKing_def)
    show ?thesis
      unfolding step using ih[of "acc @ [mv]"] gen Cons.prems(2) by simp
  qed
qed

lemma ofColor_side:
  "ofColor w p = (p \<noteq> EMPTY \<and> \<not> (w \<and> isBlack p) \<and> \<not> (\<not> w \<and> isWhite p))"
  by (cases p; cases w) (simp_all add: ofColor_def)

lemma getAllMoves_outer_inv:
  assumes "\<forall>(r, c) \<in> set sqs. inBounds r c" "\<forall>m \<in> set acc. generated chess m"
  shows "\<exists>acc'. getAllMoves_outer chess acc sqs = Some acc'
                \<and> (\<forall>m \<in> set acc'. generated chess m)"
  using assms
proof (induction sqs arbitrary: acc)
  case Nil
  then show ?case by simp
next
  case (Cons sq sqs)
  obtain r c where sq: "sq = (r, c)" by (cases sq)
  have inb: "inBounds r c" and rest: "\<forall>(r, c) \<in> set sqs. inBounds r c"
    using Cons.prems(1) sq by simp_all
  have ih: "\<exists>acc'. getAllMoves_outer chess a sqs = Some acc'
                \<and> (\<forall>m \<in> set acc'. generated chess m)"
    if "\<forall>m \<in> set a. generated chess m" for a
    using Cons.IH[OF rest that] .
  show ?case
  proof (cases "ofColor (whiteToMove chess) (board chess r c)")
    case False
    then have "getAllMoves_outer chess acc (sq # sqs) = getAllMoves_outer chess acc sqs"
      by (auto simp: sq boardAt_Some[OF inb] ofColor_side)
    then show ?thesis using ih[OF Cons.prems(2)] by simp
  next
    case True
    have sqin: "\<forall>(r2, c2) \<in> set squares. inBounds r2 c2" by (simp add: set_squares)
    obtain acc1 where a1: "getAllMoves_inner chess r c (board chess r c) acc squares = Some acc1"
      "\<forall>m \<in> set acc1. generated chess m"
      using getAllMoves_inner_inv[OF inb refl True sqin Cons.prems(2)] by blast
    have "getAllMoves_outer chess acc (sq # sqs) = getAllMoves_outer chess acc1 sqs"
      using True a1(1) by (auto simp: sq boardAt_Some[OF inb] ofColor_side)
    then show ?thesis using ih[OF a1(2)] by simp
  qed
qed

lemma getAllMoves_generated:
  "\<exists>ms. getAllMoves chess = Some ms \<and> (\<forall>m \<in> set ms. generated chess m)"
  unfolding getAllMoves_def
  by (rule getAllMoves_outer_inv) (simp_all add: set_squares)

lemma generated_facts:
  assumes "generated chess m"
  shows "inBounds (fromRow m) (fromCol m)" "inBounds (toRow m) (toCol m)"
    "fromRow m \<noteq> toRow m \<or> fromCol m \<noteq> toCol m"
    "board chess (fromRow m) (fromCol m) \<noteq> EMPTY"
    "ofColor (whiteToMove chess) (board chess (fromRow m) (fromCol m))"
    "legal chess (fromRow m) (fromCol m) (toRow m) (toCol m)"
    "\<not> isEnPassant m"
    "captured m = board chess (toRow m) (toCol m)"
    "isPromotion m = ((board chess (fromRow m) (fromCol m) = WHITE_PAWN \<and> toRow m = 7)
                      \<or> (board chess (fromRow m) (fromCol m) = BLACK_PAWN \<and> toRow m = 0))"
    "isCastling m = (isKing (board chess (fromRow m) (fromCol m)) \<and> fromCol m = 4
                     \<and> \<bar>toCol m - fromCol m\<bar> = 2)"
proof -
  define p where "p = board chess (fromRow m) (fromCol m)"
  have g: "inBounds (fromRow m) (fromCol m)" "ofColor (whiteToMove chess) p"
    "legal chess (fromRow m) (fromCol m) (toRow m) (toCol m)"
    and eq: "m = \<lparr> fromRow = fromRow m, fromCol = fromCol m, toRow = toRow m, toCol = toCol m,
               captured = board chess (toRow m) (toCol m),
               isPromotion = ((p = WHITE_PAWN \<and> toRow m = 7) \<or> (p = BLACK_PAWN \<and> toRow m = 0)),
               isEnPassant = False,
               isCastling = (isKing p \<and> fromCol m = 4 \<and> \<bar>toCol m - fromCol m\<bar> = 2) \<rparr>"
    using assms unfolding generated_def Let_def p_def by blast+
  show "inBounds (fromRow m) (fromCol m)" by (rule g(1))
  show "ofColor (whiteToMove chess) (board chess (fromRow m) (fromCol m))"
    using g(2) by (simp add: p_def)
  show "legal chess (fromRow m) (fromCol m) (toRow m) (toCol m)" by (rule g(3))
  show "inBounds (toRow m) (toCol m)" using g(3) by (simp add: legal_def Let_def)
  show ne: "board chess (fromRow m) (fromCol m) \<noteq> EMPTY"
    using g(3) by (simp add: legal_def Let_def)
  show "fromRow m \<noteq> toRow m \<or> fromCol m \<noteq> toCol m"
    using g(3) sameColor_self[OF ne] by (auto simp: legal_def Let_def)
  show "\<not> isEnPassant m" by (subst eq) simp
  show "captured m = board chess (toRow m) (toCol m)" by (subst eq) simp
  show "isPromotion m = ((board chess (fromRow m) (fromCol m) = WHITE_PAWN \<and> toRow m = 7)
                      \<or> (board chess (fromRow m) (fromCol m) = BLACK_PAWN \<and> toRow m = 0))"
    by (subst eq) (simp add: p_def)
  show "isCastling m = (isKing (board chess (fromRow m) (fromCol m)) \<and> fromCol m = 4
                     \<and> \<bar>toCol m - fromCol m\<bar> = 2)"
    by (subst eq) (simp add: p_def)
qed

section \<open>Making and unmaking a generated move\<close>

lemma castleFlag_fields [simp]:
  "board (castleFlag c m p) = board c"
  "whiteToMove (castleFlag c m p) = whiteToMove c"
  "selectedRow (castleFlag c m p) = selectedRow c"
  "selectedCol (castleFlag c m p) = selectedCol c"
  "engineWhite (castleFlag c m p) = engineWhite c"
  "enginePending (castleFlag c m p) = enginePending c"
  by (simp_all add: castleFlag_def)

lemma pushStep_fields [simp]:
  "board (pushStep c m p) = board c"
  "whiteToMove (pushStep c m p) = whiteToMove c"
  "selectedRow (pushStep c m p) = selectedRow c"
  "selectedCol (pushStep c m p) = selectedCol c"
  "engineWhite (pushStep c m p) = engineWhite c"
  "enginePending (pushStep c m p) = enginePending c"
  by (simp_all add: pushStep_def)

lemma rightsStep_fields [simp]:
  "board (rightsStep c m p) = board c"
  "whiteToMove (rightsStep c m p) = whiteToMove c"
  "selectedRow (rightsStep c m p) = selectedRow c"
  "selectedCol (rightsStep c m p) = selectedCol c"
  "engineWhite (rightsStep c m p) = engineWhite c"
  "enginePending (rightsStep c m p) = enginePending c"
    by (simp_all add: rightsStep_def Let_def)

lemma makeMove_unfold:
  "makeMove chess move undo0 =
     do { moving \<leftarrow> boardAt chess (fromRow move) (fromCol move);
          chess1 \<leftarrow> (if isCastling move
                     then do {
                       rook \<leftarrow> boardAt chess (fromRow move) (if toCol move = 6 then 7 else 0);
                       c1 \<leftarrow> boardSet chess (fromRow move) (if toCol move = 6 then 5 else 3) rook;
                       c2 \<leftarrow> boardSet c1 (fromRow move) (if toCol move = 6 then 7 else 0) EMPTY;
                       Some (castleFlag c2 move moving) }
                     else Some chess);
          (chess2, undo2) \<leftarrow> (if isEnPassant move
                     then do {
                       c1 \<leftarrow> boardSet chess1 (if isWhite moving then toRow move - 1
                                                 else toRow move + 1) (toCol move) EMPTY;
                       Some (c1, map_option (\<lambda>u. u\<lparr> capturedRow :=
                                                        (if isWhite moving then toRow move - 1
                                                         else toRow move + 1),
                                                       capturedCol := toCol move \<rparr>)
                                    (map_option (savedUndo chess move) undo0)) }
                     else Some (chess1, map_option (savedUndo chess move) undo0));
          chess6 \<leftarrow> boardSet (rightsStep (pushStep chess2 move (promoted move moving)) move
                                 (promoted move moving))
                       (toRow move) (toCol move) (promoted move moving);
          chess7 \<leftarrow> boardSet chess6 (fromRow move) (fromCol move) EMPTY;
          Some (chess7\<lparr>whiteToMove := \<not> whiteToMove chess7\<rparr>, undo2) }"
  by (simp only: makeMove_def castleFlag_def rightsStep_def pushStep_def promoted_def
        savedUndo_def Let_def)

lemma makeMove_plain:
  assumes "inBounds (fromRow m) (fromCol m)" "inBounds (toRow m) (toCol m)"
    "\<not> isCastling m" "\<not> isEnPassant m"
  shows "makeMove chess m undo
         = Some ((rightsStep
                    (pushStep chess m (promoted m (board chess (fromRow m) (fromCol m))))
                    m (promoted m (board chess (fromRow m) (fromCol m))))
                  \<lparr>board := boardAfter (board chess) m
                              (promoted m (board chess (fromRow m) (fromCol m))),
                    whiteToMove := \<not> whiteToMove chess\<rparr>,
                 map_option (savedUndo chess m) undo)"
  using assms
  by (simp add: makeMove_unfold boardAt_def boardSet_def boardAfter_def Let_def)

lemma makeMove_castle:
  assumes "inBounds (fromRow m) (fromCol m)" "inBounds (toRow m) (toCol m)"
    "isCastling m" "\<not> isEnPassant m"
  shows "makeMove chess m undo
         = Some ((rightsStep
                    (pushStep
                       (castleFlag (chess\<lparr>board := rookMoved (board chess) m\<rparr>) m
                          (board chess (fromRow m) (fromCol m)))
                       m (promoted m (board chess (fromRow m) (fromCol m))))
                    m (promoted m (board chess (fromRow m) (fromCol m))))
                  \<lparr>board := boardAfter (rookMoved (board chess) m) m
                              (promoted m (board chess (fromRow m) (fromCol m))),
                    whiteToMove := \<not> whiteToMove chess\<rparr>,
                 map_option (savedUndo chess m) undo)"
proof -
  have row: "0 \<le> fromRow m" "fromRow m < 8" using assms(1) by (simp_all add: inBounds_def)
  show ?thesis
    using assms row
    by (simp add: makeMove_unfold boardAt_def boardSet_def inBounds_def boardAfter_def
          rookMoved_def Let_def)
qed

lemma unmakeMove_compute:
  assumes "inBounds (fromRow m) (fromCol m)" "inBounds (toRow m) (toCol m)" "\<not> isEnPassant m"
  shows "unmakeMove chess m (Some u)
         = Some (chess\<lparr>whiteToMove := \<not> whiteToMove chess,
                        board := unBoard (board chess) m (capturedPiece u),
                        hasCastledWhite := undo_hasCastledWhite u,
                        hasCastledBlack := undo_hasCastledBlack u,
                        enPassantCol := undo_enPassantCol u\<rparr>)"
proof -
  have row: "0 \<le> fromRow m" "fromRow m < 8" using assms(1) by (simp_all add: inBounds_def)
  show ?thesis
    using assms row
    by (cases "isCastling m")
       (simp_all add: unmakeMove_def boardAt_def boardSet_def inBounds_def unBoard_def Let_def)
qed

lemma unBoard_boardAfter:
  assumes "fromRow m \<noteq> toRow m \<or> fromCol m \<noteq> toCol m" "\<not> isCastling m"
    and "isPromotion m \<Longrightarrow> b (fromRow m) (fromCol m) = WHITE_PAWN
                            \<or> b (fromRow m) (fromCol m) = BLACK_PAWN"
  shows "unBoard (boardAfter b m (promoted m (b (fromRow m) (fromCol m)))) m
           (b (toRow m) (toCol m)) = b"
proof (cases "isPromotion m")
  case False
  with assms(1,2) show ?thesis
    by (auto simp: unBoard_def boardAfter_def promoted_def Let_def fun_eq_iff)
next
  case True
  from assms(3)[OF True] True assms(1,2) show ?thesis
    by (auto simp: unBoard_def boardAfter_def promoted_def Let_def fun_eq_iff)
qed

lemma unBoard_castle:
  assumes "isCastling m" "\<not> isPromotion m" "fromCol m = 4" "toRow m = fromRow m"
    and "toCol m = 6 \<and> b (fromRow m) 5 = EMPTY \<and> b (fromRow m) 6 = EMPTY
         \<or> toCol m = 2 \<and> b (fromRow m) 3 = EMPTY \<and> b (fromRow m) 2 = EMPTY"
  shows "unBoard (boardAfter (rookMoved b m) m (promoted m (b (fromRow m) (fromCol m)))) m
           EMPTY = b"
  using assms
  by (auto simp: unBoard_def boardAfter_def rookMoved_def promoted_def Let_def fun_eq_iff)

lemma generated_castling:
  assumes "generated chess m" "isCastling m"
  shows "isKing (board chess (fromRow m) (fromCol m))" "fromCol m = 4" "toRow m = fromRow m"
    "toCol m = 6 \<or> toCol m = 2" "castleOK chess (fromRow m) (toCol m)"
    "\<not> isPromotion m"
proof -
  note f = generated_facts[OF assms(1)]
  define p where "p = board chess (fromRow m) (fromCol m)"
  have c: "isKing p" "fromCol m = 4" "\<bar>toCol m - fromCol m\<bar> = 2"
    using f(10) assms(2) unfolding p_def by blast+
  then have far: "\<not> kingStep (fromRow m) (fromCol m) (toRow m) (toCol m)"
    by (auto simp: kingStep_def)
  have att: "attacks (board chess) (fromRow m) (fromCol m) (toRow m) (toCol m)
             = (inBounds (toRow m) (toCol m)
                \<and> kingStep (fromRow m) (fromCol m) (toRow m) (toCol m))"
    using c(1) by (auto simp: attacks_def isKing_def p_def)
  have "fromRow m = toRow m \<and> (toCol m = 6 \<or> toCol m = 2)
        \<and> castleOK chess (fromRow m) (toCol m)"
    using f(6) far att by (auto simp: legal_def Let_def)
  note k = this
  show "toRow m = fromRow m" using k[THEN conjunct1] by simp
  show "toCol m = 6 \<or> toCol m = 2" by (rule k[THEN conjunct2, THEN conjunct1])
  show "castleOK chess (fromRow m) (toCol m)" by (rule k[THEN conjunct2, THEN conjunct2])
  show "isKing (board chess (fromRow m) (fromCol m))" using c(1) by (simp add: p_def)
  show "fromCol m = 4" by (rule c(2))
  show "\<not> isPromotion m" using f(9) c(1) by (auto simp: isKing_def p_def)
qed

lemma roundtrip_generated:
  assumes "generated chess m"
  shows "\<exists>chess' undo'. makeMove chess m (Some undo) = Some (chess', Some undo')
           \<and> unmakeMove chess' m (Some undo') = Some chess"
proof -
  note f = generated_facts[OF assms]
  define b where "b = board chess"
  define p where "p = b (fromRow m) (fromCol m)"
  show ?thesis
  proof (cases "isCastling m")
    case False
    have promo: "isPromotion m \<Longrightarrow> b (fromRow m) (fromCol m) = WHITE_PAWN
                            \<or> b (fromRow m) (fromCol m) = BLACK_PAWN"
      using f(9) by (auto simp: b_def)
    have undone: "unBoard (boardAfter b m (promoted m (b (fromRow m) (fromCol m)))) m
           (captured m) = b"
      using unBoard_boardAfter[of m b, OF f(3) False promo] f(8) by (simp add: b_def)
    show ?thesis
      unfolding makeMove_plain[OF f(1,2) False f(7)]
      using undone
      by (simp add: unmakeMove_compute[OF f(1,2,7)] savedUndo_def b_def)
  next
    case True
    note c = generated_castling[OF assms True]
    have gap: "toCol m = 6 \<and> b (fromRow m) 5 = EMPTY \<and> b (fromRow m) 6 = EMPTY
         \<or> toCol m = 2 \<and> b (fromRow m) 3 = EMPTY \<and> b (fromRow m) 2 = EMPTY"
      using c(4,5) by (auto simp: castleOK_def Let_def b_def)
    then have cap: "captured m = EMPTY" using f(8) c(3) by (auto simp: b_def)
    have undone: "unBoard (boardAfter (rookMoved b m) m (promoted m (b (fromRow m) (fromCol m)))) m
           (captured m) = b"
      using unBoard_castle[of m b, OF True c(6) c(2) c(3) gap] cap by simp
    show ?thesis
      unfolding makeMove_castle[OF f(1,2) True f(7)]
      using undone
      by (simp add: unmakeMove_compute[OF f(1,2,7)] savedUndo_def b_def)
  qed
qed

section \<open>The king of the side that moved\<close>

lemma shieldsD:
  assumes "shields w b b'" "inBounds r c"
  shows "ofColor (\<not> w) (b' r c) \<Longrightarrow> b r c = b' r c"
    "b' r c = EMPTY \<Longrightarrow> \<not> corner r c \<Longrightarrow> b r c = EMPTY"
    "(b r c = kingOf w) = (b' r c = kingOf w)"
  using assms unfolding shields_def by blast+

lemma pathFree_mono:
  assumes "shields w b b'" "inBounds fr fc" "inBounds tr tc" "aligned fr fc tr tc"
    "pathFree b' fr fc tr tc"
  shows "pathFree b fr fc tr tc"
  unfolding pathFree_def
proof (clarify)
  fix r c assume sq: "(r, c) \<in> pathSquares fr fc tr tc"
  from pathSquares_inner[OF assms(2-4) sq]
  have inb: "inBounds r c" and nc: "\<not> corner r c" by (simp_all add: corner_def)
  have "b' r c = EMPTY" using assms(5) sq by (auto simp: pathFree_def)
  from shieldsD(2)[OF assms(1) inb this nc] show "b r c = EMPTY" .
qed

lemma attacks_mono:
  assumes sh: "shields w b b'" and "inBounds fr fc" "ofColor (\<not> w) (b' fr fc)"
    and "b tr tc \<noteq> EMPTY" "b' tr tc \<noteq> EMPTY"
    and att: "attacks b' fr fc tr tc"
  shows "attacks b fr fc tr tc"
proof -
  have same: "b fr fc = b' fr fc" by (rule shieldsD(1)[OF sh assms(2,3)])
  have inb: "inBounds tr tc" using att by (simp add: attacks_def)
  have pawn: "pawnReach b' fr fc tr tc \<Longrightarrow> pawnReach b fr fc tr tc"
    using assms(4,5) by (auto simp: pawnReach_def Let_def same)
  have rook: "rookReach b' fr fc tr tc \<Longrightarrow> rookReach b fr fc tr tc"
    using pathFree_mono[OF sh assms(2) inb, of ] by (auto simp: rookReach_def aligned_def)
  have bishop: "bishopReach b' fr fc tr tc \<Longrightarrow> bishopReach b fr fc tr tc"
    using pathFree_mono[OF sh assms(2) inb] by (auto simp: bishopReach_def aligned_def)
  show ?thesis
    using att pawn rook bishop
    by (cases "b' fr fc") (auto simp: attacks_def same)
qed

lemma attacked_mono:
  assumes "shields w b b'" "b r c \<noteq> EMPTY" "b' r c \<noteq> EMPTY" "attacked b' r c (\<not> w)"
  shows "attacked b r c (\<not> w)"
proof -
  obtain fr fc where a: "(fr, fc) \<in> set squares" "ofColor (\<not> w) (b' fr fc)"
    "attacks b' fr fc r c"
    using assms(4) by (auto simp: attacked_def)
  have inb: "inBounds fr fc" using a(1) by (simp add: set_squares)
  have "b fr fc = b' fr fc" by (rule shieldsD(1)[OF assms(1) inb a(2)])
  moreover have "attacks b fr fc r c"
    by (rule attacks_mono[OF assms(1) inb a(2) assms(2,3) a(3)])
  ultimately have "ofColor (\<not> w) (b fr fc) \<and> attacks b fr fc r c" using a(2) by simp
  with a(1) show ?thesis unfolding attacked_def by blast
qed

lemma find_king_same:
  assumes "shields w b b'" "\<forall>(r, c) \<in> set sqs. inBounds r c"
  shows "find (\<lambda>(r, c). b' r c = kingOf w) sqs = find (\<lambda>(r, c). b r c = kingOf w) sqs"
  using assms(2)
proof (induction sqs)
  case Nil
  show ?case by simp
next
  case (Cons sq sqs)
  obtain r c where sq: "sq = (r, c)" by (cases sq)
  have "inBounds r c" using Cons.prems sq by simp
  from shieldsD(3)[OF assms(1) this] Cons show ?case by (simp add: sq)
qed

lemma kingOf_not_EMPTY: "kingOf w \<noteq> EMPTY"
  by (simp add: kingOf_def)

lemma inCheck_mono:
  assumes "shields w b b'" "\<not> inCheck b w"
  shows "\<not> inCheck b' w"
proof
  assume chk: "inCheck b' w"
  have sq: "\<forall>(r, c) \<in> set squares. inBounds r c" by (simp add: set_squares)
  note same = find_king_same[OF assms(1) sq]
  from chk obtain r c where k: "find (\<lambda>(r, c). b' r c = kingOf w) squares = Some (r, c)"
    and a: "attacked b' r c (\<not> w)"
    by (auto simp: inCheck_def split: option.splits)
  have k': "find (\<lambda>(r, c). b r c = kingOf w) squares = Some (r, c)" using k same by simp
  have "b' r c = kingOf w" using k by (auto simp: find_Some_iff)
  moreover have "b r c = kingOf w" using k' by (auto simp: find_Some_iff)
  ultimately have "attacked b r c (\<not> w)"
    using attacked_mono[OF assms(1) _ _ a] kingOf_not_EMPTY by simp
  then have "inCheck b w" using k' by (simp add: inCheck_def)
  with assms(2) show False by simp
qed

lemma shields_refl: "shields w b b"
  by (simp add: shields_def)

lemma ofColor_isWhite: "ofColor w p \<Longrightarrow> isWhite p = w"
  by (cases p; cases w) (simp_all add: ofColor_def)

lemma boardAfter_movePiece:
  "boardAfter b m (b (fromRow m) (fromCol m))
   = movePiece b (fromRow m) (fromCol m) (toRow m) (toCol m)"
  by (simp add: boardAfter_def movePiece_def)

lemma shields_promotion:
  assumes "fromRow m \<noteq> toRow m \<or> fromCol m \<noteq> toCol m"
    and "b (fromRow m) (fromCol m) = (if w then WHITE_PAWN else BLACK_PAWN)"
  shows "shields w (movePiece b (fromRow m) (fromCol m) (toRow m) (toCol m))
           (boardAfter b m (if w then WHITE_QUEEN else BLACK_QUEEN))"
  using assms
  by (auto simp: shields_def movePiece_def boardAfter_def Let_def ofColor_def kingOf_def)

lemma shields_castle:
  assumes "toRow m = fromRow m" "fromCol m = 4" "toCol m = 6 \<or> toCol m = 2"
    and "fromRow m = (if w then 0 else 7)"
    and "b (fromRow m) (if toCol m = 6 then 7 else 0) = (if w then WHITE_ROOK else BLACK_ROOK)"
    and "b (fromRow m) (if toCol m = 6 then 5 else 3) = EMPTY"
  shows "shields w (movePiece b (fromRow m) (fromCol m) (toRow m) (toCol m))
           (boardAfter (rookMoved b m) m (b (fromRow m) (fromCol m)))"
  unfolding shields_def
proof (intro allI impI)
  fix r c assume "inBounds r c"
  show "(ofColor (\<not> w) (boardAfter (rookMoved b m) m (b (fromRow m) (fromCol m)) r c) \<longrightarrow>
         movePiece b (fromRow m) (fromCol m) (toRow m) (toCol m) r c =
         boardAfter (rookMoved b m) m (b (fromRow m) (fromCol m)) r c) \<and>
        (boardAfter (rookMoved b m) m (b (fromRow m) (fromCol m)) r c = EMPTY \<longrightarrow>
         movePiece b (fromRow m) (fromCol m) (toRow m) (toCol m) r c = EMPTY \<or> corner r c) \<and>
        ((movePiece b (fromRow m) (fromCol m) (toRow m) (toCol m) r c = kingOf w) =
         (boardAfter (rookMoved b m) m (b (fromRow m) (fromCol m)) r c = kingOf w))"
  proof (cases "toCol m = 6")
    case True
    with assms(1,2,4-6) show ?thesis
      by (cases w)
         (auto simp: movePiece_def boardAfter_def rookMoved_def Let_def ofColor_def kingOf_def
            corner_def)
  next
    case False
    then have "toCol m = 2" using assms(3) by simp
    with assms(1,2,4-6) show ?thesis
      by (cases w)
         (auto simp: movePiece_def boardAfter_def rookMoved_def Let_def ofColor_def kingOf_def
            corner_def)
  qed
qed

lemma safe_after_generated:
  assumes "generated chess m"
  shows "\<exists>chess' undo'. makeMove chess m undo = Some (chess', undo')
           \<and> isKingInCheck chess' (whiteToMove chess) = Some False"
proof -
  note f = generated_facts[OF assms]
  define b where "b = board chess"
  define p where "p = b (fromRow m) (fromCol m)"
  define w where "w = whiteToMove chess"
  define sim where "sim = movePiece b (fromRow m) (fromCol m) (toRow m) (toCol m)"
  have pw: "isWhite p = w" using f(5) ofColor_isWhite by (simp add: p_def b_def w_def)
  have safe: "\<not> inCheck sim w"
    using f(6) pw by (simp add: legal_def Let_def sim_def b_def p_def)
  have goal: "\<exists>chess' undo'. makeMove chess m undo = Some (chess', undo')
           \<and> isKingInCheck chess' w = Some False"
    if mk: "makeMove chess m undo = Some (X, U)" and bx: "shields w sim (board X)" for X U
    using inCheck_mono[OF bx safe] mk by (simp add: isKingInCheck_pure)
  show ?thesis
  proof (cases "isCastling m")
    case False
    note mk = makeMove_plain[OF f(1,2) False f(7), of chess undo]
    show ?thesis
    proof (cases "isPromotion m")
      case no: False
      have "shields w sim (boardAfter b m (promoted m p))"
        using no shields_refl by (simp add: promoted_def p_def sim_def boardAfter_movePiece)
      then show ?thesis
        using goal[OF mk] by (simp add: b_def p_def w_def)
    next
      case True
      then have "p = WHITE_PAWN \<or> p = BLACK_PAWN" using f(9) by (auto simp: p_def b_def)
      with pw have pp: "p = (if w then WHITE_PAWN else BLACK_PAWN)" by auto
      have "shields w sim (boardAfter b m (promoted m p))"
        using shields_promotion[OF f(3), of b w] pp True
        by (auto simp: promoted_def sim_def p_def)
      then show ?thesis
        using goal[OF mk] by (simp add: b_def p_def w_def)
    qed
  next
    case True
    note c = generated_castling[OF assms True]
    note mk = makeMove_castle[OF f(1,2) True f(7), of chess undo]
    have home: "fromRow m = (if w then 0 else 7)"
      and rook: "b (fromRow m) (if toCol m = 6 then 7 else 0)
                 = (if w then WHITE_ROOK else BLACK_ROOK)"
      and gap: "b (fromRow m) (if toCol m = 6 then 5 else 3) = EMPTY"
      using c(5) c(2) c(4) pw by (auto simp: castleOK_def Let_def b_def p_def)
    have "shields w sim (boardAfter (rookMoved b m) m (promoted m p))"
      using shields_castle[of m w b, OF c(3) c(2) c(4) home rook gap] c(6)
      by (simp add: promoted_def sim_def p_def)
    then show ?thesis
      using goal[OF mk] by (simp add: b_def p_def w_def)
  qed
qed

text \<open>
  C1. \<^verbatim>\<open>getAllMoves\<close> returns a list for every position, and for every move of the list
  \<^verbatim>\<open>makeMove\<close> followed by \<^verbatim>\<open>unmakeMove\<close> with the undo record that \<^verbatim>\<open>makeMove\<close>
  filled gives back the position itself: the board, the side to move, both pairs of
  castling flags and the en-passant file (and the fields neither function touches).
  This holds for every position, so in particular for those with one king per side.
\<close>

theorem makeMove_unmakeMove_roundtrip:
  "\<exists>ms. getAllMoves chess = Some ms
     \<and> (\<forall>m \<in> set ms. \<exists>chess' undo'.
           makeMove chess m (Some undo) = Some (chess', Some undo')
           \<and> unmakeMove chess' m (Some undo') = Some chess)"
  using getAllMoves_generated[of chess] roundtrip_generated[of chess] by blast

theorem makeMove_unmakeMove_roundtrip_witness:
  "getAllMoves initChessState = Some openingMoves
   \<and> quiet 1 4 3 4 \<in> set openingMoves
   \<and> (\<exists>chess' undo'.
         makeMove initChessState (quiet 1 4 3 4) (Some blankUndo) = Some (chess', Some undo')
         \<and> unmakeMove chess' (quiet 1 4 3 4) (Some undo') = Some initChessState)"
proof -
  have mem: "quiet 1 4 3 4 \<in> set openingMoves" by (simp add: openingMoves_def)
  from makeMove_unmakeMove_roundtrip[of initChessState blankUndo] getAllMoves_init mem
  show ?thesis by auto
qed

text \<open>
  C2. For every move that \<^verbatim>\<open>getAllMoves\<close> returns, the position that \<^verbatim>\<open>makeMove\<close>
  produces is one in which \<^verbatim>\<open>isKingInCheck\<close> answers false for the side that moved. This
  holds for every position, so in particular for those with one king per side.
\<close>

theorem generated_move_keeps_king_safe:
  "\<exists>ms. getAllMoves chess = Some ms
     \<and> (\<forall>m \<in> set ms. \<exists>chess' undo'.
           makeMove chess m undo = Some (chess', undo')
           \<and> isKingInCheck chess' (whiteToMove chess) = Some False)"
  using getAllMoves_generated[of chess] safe_after_generated[of chess] by blast

theorem generated_move_keeps_king_safe_witness:
  "getAllMoves initChessState = Some openingMoves
   \<and> quiet 0 1 2 2 \<in> set openingMoves
   \<and> (\<exists>chess' undo'.
         makeMove initChessState (quiet 0 1 2 2) None = Some (chess', undo')
         \<and> isKingInCheck chess' (whiteToMove initChessState) = Some False)"
proof -
  have mem: "quiet 0 1 2 2 \<in> set openingMoves" by (simp add: openingMoves_def)
  from generated_move_keeps_king_safe[of initChessState None] getAllMoves_init mem
  show ?thesis by auto
qed

section \<open>The en-passant file after a move, and the from-square of \<^verbatim>\<open>isLegalMove\<close>\<close>

lemma rightsStep_enPassantCol [simp]: "enPassantCol (rightsStep c m p) = enPassantCol c"
  by (simp add: rightsStep_def Let_def)

lemma boardSet_enPassantCol:
  "boardSet c r k p = Some c' \<Longrightarrow> enPassantCol c' = enPassantCol c"
  by (auto simp: boardSet_def split: if_splits)

lemma makeMove_enPassantCol:
  assumes "makeMove chess m undo = Some (chess', undo')"
  shows "\<exists>p. boardAt chess (fromRow m) (fromCol m) = Some p
           \<and> enPassantCol chess'
               = (if (p = WHITE_PAWN \<or> p = BLACK_PAWN) \<and> \<not> isPromotion m
                     \<and> \<bar>toRow m - fromRow m\<bar> = 2
                  then fromCol m else - 1)"
proof -
  from assms obtain p c2 c6 c7 where
    rd: "boardAt chess (fromRow m) (fromCol m) = Some p"
    and s6: "boardSet (rightsStep (pushStep c2 m (promoted m p)) m (promoted m p))
               (toRow m) (toCol m) (promoted m p) = Some c6"
    and s7: "boardSet c6 (fromRow m) (fromCol m) EMPTY = Some c7"
    and res: "chess' = c7\<lparr>whiteToMove := \<not> whiteToMove c7\<rparr>"
    by (auto simp: makeMove_unfold bind_eq_Some_conv)
  have "enPassantCol chess' = enPassantCol (pushStep c2 m (promoted m p))"
    using boardSet_enPassantCol[OF s6] boardSet_enPassantCol[OF s7] res by simp
  also have "\<dots> = (if (p = WHITE_PAWN \<or> p = BLACK_PAWN) \<and> \<not> isPromotion m
                     \<and> \<bar>toRow m - fromRow m\<bar> = 2
                  then fromCol m else - 1)"
    by (auto simp: pushStep_def promoted_def)
  finally show ?thesis using rd by simp
qed

lemma isLegalMove_from_outside:
  "inBounds tr tc \<Longrightarrow> \<not> inBounds fr fc \<Longrightarrow> isLegalMove chess fr fc tr tc = None"
  by (simp add: isLegalMove_def boardAt_def)

lemma isLegalMove_to_outside:
  "\<not> inBounds tr tc \<Longrightarrow> isLegalMove chess fr fc tr tc = Some False"
  by (simp add: isLegalMove_def)

lemma isLegalMove_from_inside:
  "inBounds fr fc \<Longrightarrow> \<exists>ok. isLegalMove chess fr fc tr tc = Some ok"
  by (simp add: isLegalMove_pure)

end
